theory Spec2Isabelle
  imports Main "HOL-Library.Sublist"
begin

section \<open>Text, style tags and errors\<close>

text \<open>
  The sources run under \<^verbatim>\<open>unicode_literals\<close>: a character is a Unicode code point and a
  string is a sequence of code points. A code point is a natural number here, so that wide
  and combining characters are inputs of the model; \<open>ustr\<close> turns a literal into such a
  string.
\<close>

type_synonym uchar = nat
type_synonym ustring = "uchar list"

definition ustr :: "string \<Rightarrow> ustring" where
  "ustr s = map of_char s"

text \<open>
  A pygments token is a path in the token hierarchy: \<^verbatim>\<open>Token\<close> is the root,
  \<^verbatim>\<open>Token.SearchMatch.Current\<close> is the path SearchMatch, Current.
\<close>

type_synonym Token = "string list"

definition Token_root :: Token where
  "Token_root = []"

definition Token_Error :: Token where
  "Token_Error = [''Error'']"

definition Token_SearchMatch :: Token where
  "Token_SearchMatch = [''SearchMatch'']"

definition Token_SearchMatch_Current :: Token where
  "Token_SearchMatch_Current = [''SearchMatch'', ''Current'']"

type_synonym tokens = "(Token \<times> ustring) list"

text \<open>The exceptions the modelled code can raise.\<close>

datatype error = AssertionError | IndexError

section \<open>screen.py: Char\<close>

record Char =
  char_Char :: ustring
  token_Char :: Token
  width_Char :: nat

text \<open>\<^verbatim>\<open>Char.display_mappings\<close>, entry by entry as the class body lists them.\<close>

definition display_mappings :: "ustring \<rightharpoonup> ustring" where
  "display_mappings = map_of
    [([0x00], ustr ''^@''),
     ([0x01], ustr ''^A''),
     ([0x02], ustr ''^B''),
     ([0x03], ustr ''^C''),
     ([0x04], ustr ''^D''),
     ([0x05], ustr ''^E''),
     ([0x06], ustr ''^F''),
     ([0x07], ustr ''^G''),
     ([0x08], ustr ''^H''),
     ([0x09], ustr ''^I''),
     ([0x0a], ustr ''^J''),
     ([0x0b], ustr ''^K''),
     ([0x0c], ustr ''^L''),
     ([0x0d], ustr ''^M''),
     ([0x0e], ustr ''^N''),
     ([0x0f], ustr ''^O''),
     ([0x10], ustr ''^P''),
     ([0x11], ustr ''^Q''),
     ([0x12], ustr ''^R''),
     ([0x13], ustr ''^S''),
     ([0x14], ustr ''^T''),
     ([0x15], ustr ''^U''),
     ([0x16], ustr ''^V''),
     ([0x17], ustr ''^W''),
     ([0x18], ustr ''^X''),
     ([0x19], ustr ''^Y''),
     ([0x1a], ustr ''^Z''),
     ([0x1b], ustr ''^[''),
     ([0x1c], [0x5e, 0x5c]),
     ([0x1d], ustr ''^]''),
     ([0x1f], ustr ''^_''),
     ([0x7f], ustr ''^?'')]"

text \<open>
  \<^verbatim>\<open>Char.__init__(char, token)\<close>. The width function \<^verbatim>\<open>get_cwidth\<close> lives in
  \<^verbatim>\<open>prompt_toolkit.utils\<close>, which is not part of the sources at hand; it is the parameter
  \<open>get_cwidth\<close> of every definition that needs it. It measures a whole string and returns a
  column count (0, 1 or 2 for a single character).
\<close>

definition Char_init :: "(ustring \<Rightarrow> nat) \<Rightarrow> ustring \<Rightarrow> Token \<Rightarrow> Char" where
  "Char_init get_cwidth char token =
     (let char = (case display_mappings char of None \<Rightarrow> char | Some d \<Rightarrow> d)
      in \<lparr>char_Char = char, token_Char = token, width_Char = get_cwidth char\<rparr>)"

text \<open>
  \<^verbatim>\<open>_CHAR_CACHE[char, token]\<close>: the cache memoises \<^verbatim>\<open>Char(char, token)\<close>, and a
  \<^verbatim>\<open>Char\<close> is never mutated, so a lookup returns what the constructor returns for the key.
\<close>

definition CHAR_CACHE :: "(ustring \<Rightarrow> nat) \<Rightarrow> uchar \<times> Token \<Rightarrow> Char" where
  "CHAR_CACHE get_cwidth key = Char_init get_cwidth [fst key] (snd key)"

section \<open>screen.py: WritePosition\<close>

record WritePosition =
  xpos :: int
  ypos :: int
  width_WP :: int
  height :: int
  extended_height :: int

text \<open>
  \<^verbatim>\<open>WritePosition.__init__\<close>: the five assertions in the order of the source, then the
  fields; \<^verbatim>\<open>extended_height or height\<close> takes \<open>height\<close> when the argument is
  \<^verbatim>\<open>None\<close> or zero.
\<close>

definition WritePosition_init ::
  "int \<Rightarrow> int \<Rightarrow> int \<Rightarrow> int \<Rightarrow> int option \<Rightarrow> error + WritePosition" where
  "WritePosition_init xpos' ypos' width' height' extended_height' =
     (if \<not> height' \<ge> 0 then Inl AssertionError
      else if \<not> (case extended_height' of None \<Rightarrow> True | Some e \<Rightarrow> e \<ge> 0) then Inl AssertionError
      else if \<not> width' \<ge> 0 then Inl AssertionError
      else if \<not> xpos' \<ge> 0 then Inl AssertionError
      else if \<not> ypos' \<ge> 0 then Inl AssertionError
      else Inr \<lparr>xpos = xpos', ypos = ypos', width_WP = width', height = height',
                extended_height = (case extended_height' of
                                     None \<Rightarrow> height'
                                   | Some e \<Rightarrow> if e = 0 then height' else e)\<rparr>)"

section \<open>screen.py: Screen\<close>

text \<open>
  \<^verbatim>\<open>Screen._buffer\<close> (the field \<open>buffer_Screen\<close>) is a \<^verbatim>\<open>defaultdict\<close> of rows, each a \<^verbatim>\<open>defaultdict\<close> of
  cells: a map from row index to a map from column index to \<^verbatim>\<open>Char\<close>. A position never
  written reads as \<^verbatim>\<open>default_char\<close>. \<^verbatim>\<open>Point\<close> is the pair (y, x).
\<close>

type_synonym grid = "nat \<rightharpoonup> (nat \<rightharpoonup> Char)"

record Screen =
  buffer_Screen :: grid
  default_char :: Char
  width_Screen :: int
  cursor_position :: "int \<times> int"
  menu_position :: "(int \<times> int) option"
  current_height :: int
  screen_line_to_input_line :: "nat \<rightharpoonup> nat"

definition Screen_init :: "(ustring \<Rightarrow> nat) \<Rightarrow> int \<Rightarrow> Char option \<Rightarrow> Screen" where
  "Screen_init get_cwidth width default_char' =
     \<lparr>buffer_Screen = Map.empty,
      default_char = (case default_char' of
                        None \<Rightarrow> Char_init get_cwidth (ustr '' '') Token_root
                      | Some c \<Rightarrow> c),
      width_Screen = width,
      cursor_position = (0, 0),
      menu_position = None,
      current_height = 1,
      screen_line_to_input_line = Map.empty\<rparr>"

text \<open>\<^verbatim>\<open>buffer[y][x] = char_obj\<close>: the row is created when it is missing.\<close>

definition buffer_set :: "grid \<Rightarrow> nat \<Rightarrow> nat \<Rightarrow> Char \<Rightarrow> grid" where
  "buffer_set buffer y x char_obj =
     buffer(y \<mapsto> (case buffer y of None \<Rightarrow> Map.empty | Some row \<Rightarrow> row)(x \<mapsto> char_obj))"

text \<open>The cell stored at row \<open>y\<close>, column \<open>x\<close>, if one was written.\<close>

definition cell_at :: "grid \<Rightarrow> nat \<Rightarrow> nat \<Rightarrow> Char option" where
  "cell_at buffer y x = (case buffer y of None \<Rightarrow> None | Some row \<Rightarrow> row x)"

text \<open>Reading \<^verbatim>\<open>buffer[y][x]\<close>: the stored cell, or the default cell.\<close>

definition buffer_get :: "Screen \<Rightarrow> nat \<Rightarrow> nat \<Rightarrow> Char" where
  "buffer_get self y x =
     (case cell_at (buffer_Screen self) y x of None \<Rightarrow> default_char self | Some c \<Rightarrow> c)"

text \<open>
  The statements that place one cell, the same in \<^verbatim>\<open>do_line_feed\<close> and in the main
  loop: store the cell at \<open>(y, x)\<close>, store \<^verbatim>\<open>Char(six.unichr(0))\<close> in the next column
  when the cell is wider than one column, advance \<open>x\<close> by the width.
\<close>

definition store_char :: "(ustring \<Rightarrow> nat) \<Rightarrow> nat \<Rightarrow> Char \<Rightarrow> nat \<times> grid \<Rightarrow> nat \<times> grid" where
  "store_char get_cwidth y char_obj = (\<lambda>(x, buffer).
     let char_width = width_Char char_obj;
         buffer = buffer_set buffer y x char_obj;
         buffer = (if char_width > 1
                   then buffer_set buffer y (x + 1) (Char_init get_cwidth [0] Token_root)
                   else buffer)
     in (x + char_width, buffer))"

text \<open>
  \<^verbatim>\<open>do_line_feed(x, number)\<close>, a closure over the current row \<open>y\<close>, the grid, the line
  mapping \<^verbatim>\<open>screen_line_to_input_line\<close> (\<open>lines\<close> here) and \<open>margin\<close>; it returns the new \<open>x\<close> (with the grid and the mapping it
  mutated).
\<close>

type_synonym margin = "nat option \<Rightarrow> tokens"

definition do_line_feed ::
  "(ustring \<Rightarrow> nat) \<Rightarrow> margin option \<Rightarrow> nat \<Rightarrow> nat \<Rightarrow> nat option \<Rightarrow>
   grid \<times> (nat \<rightharpoonup> nat) \<Rightarrow> nat \<times> grid \<times> (nat \<rightharpoonup> nat)" where
  "do_line_feed get_cwidth margin y x number = (\<lambda>(buffer, lines).
     let lines =
           (case number of
              None \<Rightarrow> lines
            | Some n \<Rightarrow> lines(y \<mapsto> n));
         (x, buffer) =
           (case margin of
              None \<Rightarrow> (x, buffer)
            | Some margin \<Rightarrow>
                fold (\<lambda>(token, text).
                        fold (\<lambda>char. store_char get_cwidth y (CHAR_CACHE get_cwidth (char, token)))
                          text)
                  (margin number) (x, buffer))
     in (x, buffer, lines))"

text \<open>The local variables of \<^verbatim>\<open>write_data\<close> that the loop changes.\<close>

record write_state =
  st_x :: nat
  st_y :: nat
  st_index :: nat
  st_line_number :: nat
  st_requires_line_feed :: bool
  st_indexes_to_pos :: "nat \<rightharpoonup> nat \<times> nat"
  st_buffer :: grid
  st_screen_line_to_input_line :: "nat \<rightharpoonup> nat"

definition newline :: uchar where
  "newline = 0x0a"

text \<open>The body of the inner loop, for one character \<open>char\<close> of a fragment tagged \<open>token\<close>.\<close>

definition write_body ::
  "(ustring \<Rightarrow> nat) \<Rightarrow> int \<Rightarrow> margin option \<Rightarrow> Token \<Rightarrow> uchar \<Rightarrow> write_state \<Rightarrow> write_state" where
  "write_body get_cwidth max_x margin token char st =
     (let st = (if st_requires_line_feed st then
                  (let (x, buffer, lines) =
                         do_line_feed get_cwidth margin (st_y st) (st_x st)
                           (Some (st_line_number st))
                           (st_buffer st, st_screen_line_to_input_line st)
                   in st\<lparr>st_x := x, st_buffer := buffer,
                         st_screen_line_to_input_line := lines,
                         st_requires_line_feed := False\<rparr>)
                else st);
          char_obj = CHAR_CACHE get_cwidth (char, token);
          char_width = width_Char char_obj;
          st = (if int (st_x st + char_width) > max_x \<and> char \<noteq> newline then
                  (let (x, buffer, lines) =
                         do_line_feed get_cwidth margin (st_y st + 1) 0 None
                           (st_buffer st, st_screen_line_to_input_line st)
                   in st\<lparr>st_y := st_y st + 1, st_x := x, st_buffer := buffer,
                         st_screen_line_to_input_line := lines\<rparr>)
                else st);
          st = st\<lparr>st_indexes_to_pos := (st_indexes_to_pos st)(st_index st \<mapsto> (st_x st, st_y st))\<rparr>;
          st = (if char = newline then
                  st\<lparr>st_y := st_y st + 1, st_x := 0, st_requires_line_feed := True,
                     st_line_number := st_line_number st + 1\<rparr>
                else
                  (let (x, buffer) = store_char get_cwidth (st_y st) char_obj (st_x st, st_buffer st)
                   in st\<lparr>st_buffer := buffer, st_x := x\<rparr>))
      in st\<lparr>st_index := st_index st + 1\<rparr>)"

text \<open>
  \<^verbatim>\<open>Screen.write_data(data, width, margin)\<close>: returns \<^verbatim>\<open>indexes_to_pos\<close>, a dictionary
  from stream index to the pair (x, y), together with the screen it mutated.
\<close>

definition write_data ::
  "(ustring \<Rightarrow> nat) \<Rightarrow> Screen \<Rightarrow> tokens \<Rightarrow> int \<Rightarrow> margin option \<Rightarrow>
   (nat \<rightharpoonup> nat \<times> nat) \<times> Screen" where
  "write_data get_cwidth self data width margin =
     (let st = \<lparr>st_x = 0, st_y = 0, st_index = 0, st_line_number = 0,
                st_requires_line_feed = True, st_indexes_to_pos = Map.empty,
                st_buffer = buffer_Screen self,
                st_screen_line_to_input_line = screen_line_to_input_line self\<rparr>;
          max_x = 0 + width;
          st = fold (\<lambda>(token, text). fold (write_body get_cwidth max_x margin token) text) data st
      in (st_indexes_to_pos st,
          self\<lparr>buffer_Screen := st_buffer st,
               screen_line_to_input_line := st_screen_line_to_input_line st,
               current_height := max (current_height self) (int (st_y st) + 1)\<rparr>))"

text \<open>
  Modelled from the spec: \<^verbatim>\<open>get_cwidth\<close> (\<^verbatim>\<open>prompt_toolkit.utils\<close>) is not part of the
  sources at hand. The spec gives a cell a display width of 0, 1 or 2 columns by the
  East-Asian-width rules, with U+4E2D two columns wide and \<^verbatim>\<open>a\<close> one, and measures
  a substituted glyph as a whole string. This model, used for concrete runs only, gives the
  combining diacritical marks width 0 and the CJK unified ideographs width 2.
\<close>

definition char_cwidth :: "uchar \<Rightarrow> nat" where
  "char_cwidth c =
     (if 0x0300 \<le> c \<and> c \<le> 0x036f then 0
      else if 0x4e00 \<le> c \<and> c \<le> 0x9fff then 2
      else 1)"

definition get_cwidth_model :: "ustring \<Rightarrow> nat" where
  "get_cwidth_model string = sum_list (map char_cwidth string)"

section \<open>processors.py\<close>

text \<open>
  Python's \<^verbatim>\<open>a in b\<close> on two strings: \<open>a\<close> occurs in \<open>b\<close> as a contiguous substring
  (so the empty string is in every string).
\<close>

fun str_in :: "'a list \<Rightarrow> 'a list \<Rightarrow> bool" where
  "str_in xs [] = (xs = [])"
| "str_in xs (y # ys) = (prefix xs (y # ys) \<or> str_in xs ys)"

text \<open>
  \<^verbatim>\<open>tokens[x] = (token, tokens[x][1])\<close>: replace the style tag of entry \<open>x\<close>, keep its
  text. Reading a list out of range raises \<^verbatim>\<open>IndexError\<close>.
\<close>

definition retag :: "Token \<Rightarrow> nat \<Rightarrow> tokens \<Rightarrow> error + tokens" where
  "retag token x tokens =
     (if x < length tokens then Inr (tokens[x := (token, snd (tokens ! x))])
      else Inl IndexError)"

text \<open>A \<^verbatim>\<open>for\<close> loop whose body can raise: the first error ends the loop.\<close>

fun fold_err :: "('a \<Rightarrow> 's \<Rightarrow> error + 's) \<Rightarrow> 'a list \<Rightarrow> 's \<Rightarrow> error + 's" where
  "fold_err f [] s = Inr s"
| "fold_err f (x # xs) s = (case f x s of Inl e \<Rightarrow> Inl e | Inr s' \<Rightarrow> fold_err f xs s')"

subsection \<open>The state a processor reads\<close>

text \<open>
  \<^verbatim>\<open>Buffer\<close> and \<^verbatim>\<open>Document\<close> are classes of other modules. A processor reads
  \<^verbatim>\<open>buffer.isearch_state\<close> (an object or \<^verbatim>\<open>None\<close>), its \<^verbatim>\<open>isearch_text\<close>,
  \<^verbatim>\<open>buffer.cursor_position\<close> and the method \<^verbatim>\<open>buffer.document.find_all\<close>, which is a
  field of the record: the processor is verified for whatever that method returns.
\<close>

record IsearchState =
  isearch_text :: ustring

record Buffer =
  isearch_state :: "IsearchState option"
  cursor_position_Buffer :: nat
  document_find_all :: "ustring \<Rightarrow> nat list"

subsection \<open>HighlightSearchProcessor\<close>

definition HighlightSearchProcessor_run ::
  "'cli \<Rightarrow> Buffer \<Rightarrow> tokens \<Rightarrow> error + tokens \<times> (nat \<Rightarrow> nat)" where
  "HighlightSearchProcessor_run cli buffer tokens =
     (case isearch_state buffer of
        None \<Rightarrow> Inr (tokens, \<lambda>i. i)
      | Some st \<Rightarrow>
          (case fold_err
                  (\<lambda>index tokens.
                     let token = (if index = cursor_position_Buffer buffer
                                  then Token_SearchMatch_Current else Token_SearchMatch)
                     in fold_err (\<lambda>x tokens. retag token x tokens)
                          [index ..< index + length (isearch_text st)] tokens)
                  (document_find_all buffer (isearch_text st)) tokens of
             Inl e \<Rightarrow> Inl e
           | Inr tokens \<Rightarrow> Inr (tokens, \<lambda>i. i)))"

subsection \<open>BracketsMismatchProcessor\<close>

text \<open>
  One pass of the loop body for \<^verbatim>\<open>index\<close>. The stack is a Python list: \<^verbatim>\<open>append\<close> adds
  at the end, \<^verbatim>\<open>stack[-1]\<close> is the last entry, \<^verbatim>\<open>pop()\<close> removes it. The loop reads
  entry \<open>index\<close> from the list it mutates; the only entry an iteration changes is its own.
\<close>

definition brackets_body :: "nat \<Rightarrow> tokens \<times> nat list \<Rightarrow> tokens \<times> nat list" where
  "brackets_body index = (\<lambda>(tokens, stack).
     let text = snd (tokens ! index);
         top = (if stack \<noteq> [] then snd (tokens ! last stack) else [])
     in if str_in text (ustr ''({[]})'') then
          if str_in text (ustr ''({['') then (tokens, stack @ [index])
          else if text = ustr '')'' \<and> top = ustr ''(''
                \<or> text = ustr ''}'' \<and> top = ustr ''{''
                \<or> text = ustr '']'' \<and> top = ustr ''['' then (tokens, butlast stack)
          else (tokens[index := (Token_Error, text)], stack)
        else (tokens, stack))"

definition BracketsMismatchProcessor_run ::
  "'cli \<Rightarrow> 'buffer \<Rightarrow> tokens \<Rightarrow> tokens \<times> (nat \<Rightarrow> nat)" where
  "BracketsMismatchProcessor_run cli buffer tokens =
     (let (tokens, stack) = fold brackets_body [0 ..< length tokens] (tokens, []);
          tokens = fold (\<lambda>index tokens. tokens[index := (Token_Error, snd (tokens ! index))])
                     stack tokens
      in (tokens, \<lambda>i. i))"

subsection \<open>BeforeInput and AfterInput\<close>

text \<open>
  Modelled from the spec: \<^verbatim>\<open>token_list_len\<close> is imported from \<^verbatim>\<open>layout/utils.py\<close>, which
  is not part of the sources at hand. The spec calls the shift "the inserted stream's total
  character count".
\<close>

definition token_list_len :: "tokens \<Rightarrow> nat" where
  "token_list_len tokenlist = sum_list (map (\<lambda>(token, text). length text) tokenlist)"

definition BeforeInput_run ::
  "('cli \<Rightarrow> 'buffer \<Rightarrow> tokens) \<Rightarrow> 'cli \<Rightarrow> 'buffer \<Rightarrow> tokens \<Rightarrow> tokens \<times> (nat \<Rightarrow> nat)" where
  "BeforeInput_run get_tokens cli buffer tokens =
     (let tokens_before = get_tokens cli buffer;
          shift_position = token_list_len tokens_before
      in (tokens_before @ tokens, \<lambda>i. i + shift_position))"

definition AfterInput_run ::
  "('cli \<Rightarrow> 'buffer \<Rightarrow> tokens) \<Rightarrow> 'cli \<Rightarrow> 'buffer \<Rightarrow> tokens \<Rightarrow> tokens \<times> (nat \<Rightarrow> nat)" where
  "AfterInput_run get_tokens cli buffer tokens = (tokens @ get_tokens cli buffer, \<lambda>i. i)"

text \<open>\<^verbatim>\<open>BeforeInput.static(text, token)\<close> and \<^verbatim>\<open>AfterInput.static\<close> build this generator.\<close>

definition get_static_tokens :: "ustring \<Rightarrow> Token \<Rightarrow> 'cli \<Rightarrow> 'buffer \<Rightarrow> tokens" where
  "get_static_tokens text token cli buffer = [(token, text)]"

text \<open>
  The characters of a stream in order, one entry per character with its style tag: the
  order in which \<^verbatim>\<open>for token, text in data: for char in text\<close> visits them.
\<close>

definition explode_tokens :: "tokens \<Rightarrow> (Token \<times> uchar) list" where
  "explode_tokens data = concat (map (\<lambda>(token, text). map (\<lambda>char. (token, char)) text) data)"

text \<open>
  Modelled from the spec: the processor pipeline is the callers' code, outside the sources
  at hand. "Each stage receives the previous stage's output stream; the overall index-remap
  is the left-to-right function composition of each stage's remap."
\<close>

definition pipeline2 ::
  "(tokens \<Rightarrow> tokens \<times> (nat \<Rightarrow> nat)) \<Rightarrow> (tokens \<Rightarrow> tokens \<times> (nat \<Rightarrow> nat)) \<Rightarrow>
   tokens \<Rightarrow> tokens \<times> (nat \<Rightarrow> nat)" where
  "pipeline2 run1 run2 tokens =
     (let (tokens1, remap1) = run1 tokens;
          (tokens2, remap2) = run2 tokens1
      in (tokens2, \<lambda>i. remap2 (remap1 i)))"

section \<open>Properties of Char and WritePosition\<close>

lemma display_mappings_1e: "display_mappings [0x1e] = None"
  by (simp add: display_mappings_def ustr_def)

text \<open>
  C2 (the code departs from the claim). The claim: every control character from NUL (0x00)
  to US (0x1F), and DEL, is stored as its two-character caret glyph. The table has no entry
  for RS (0x1E): a cell built from it keeps the raw control character as its glyph, and its
  width is that of the raw character.
\<close>

theorem Char_init_RS_not_substituted:
  "Char_init get_cwidth [0x1e] token =
     \<lparr>char_Char = [0x1e], token_Char = token, width_Char = get_cwidth [0x1e]\<rparr>"
  by (simp add: Char_init_def display_mappings_1e Let_def)

text \<open>What the table does for the characters it lists: the glyph is a caret and the
  character 64 places up (DEL: a caret and a question mark).\<close>

lemma display_mappings_listed:
  "c < 0x1e \<or> c = 0x1f \<Longrightarrow> display_mappings [c] = Some [0x5e, c + 0x40]"
proof -
  assume "c < 0x1e \<or> c = 0x1f"
  then have "c \<in> set ([0 ..< 30] @ [31])"
    by auto
  then show ?thesis
    unfolding display_mappings_def ustr_def by (simp add: upt_rec) (elim disjE; simp)
qed

lemma display_mappings_DEL: "display_mappings [0x7f] = Some (ustr ''^?'')"
  by (simp add: display_mappings_def ustr_def)

text \<open>
  C8 (amended). Construction fails whenever one of x, y, width, height is negative, and
  also when a supplied extended-height is negative. A constructed Write Position has
  extended-height \<open>\<ge> 0\<close>; it equals height when no extended-height (or 0) was supplied and
  is the supplied value otherwise. So extended-height \<open>\<ge>\<close> height is guaranteed only when
  the supplied value is absent, 0, or itself at least height.
\<close>

theorem WritePosition_init_contract:
  "((WritePosition_init x y w h eh = Inl AssertionError) =
      (x < 0 \<or> y < 0 \<or> w < 0 \<or> h < 0 \<or> (\<exists>e. eh = Some e \<and> e < 0))) \<and>
   (\<forall>wp. WritePosition_init x y w h eh = Inr wp \<longrightarrow>
      xpos wp = x \<and> ypos wp = y \<and> width_WP wp = w \<and> height wp = h \<and>
      0 \<le> extended_height wp \<and>
      extended_height wp = (case eh of None \<Rightarrow> h | Some e \<Rightarrow> if e = 0 then h else e) \<and>
      ((case eh of None \<Rightarrow> True | Some e \<Rightarrow> e = 0 \<or> h \<le> e)
         \<longrightarrow> height wp \<le> extended_height wp))"
  by (auto simp: WritePosition_init_def split: option.splits if_splits)

theorem WritePosition_init_contract_witness:
  "WritePosition_init (- 1) 0 1 5 None = Inl AssertionError \<and>
   WritePosition_init 0 0 1 5 (Some 7)
     = Inr \<lparr>xpos = 0, ypos = 0, width_WP = 1, height = 5, extended_height = 7\<rparr> \<and>
   height \<lparr>xpos = 0, ypos = 0, width_WP = 1, height = 5, extended_height = 7\<rparr>
     \<le> extended_height \<lparr>xpos = 0, ypos = 0, width_WP = 1, height = 5, extended_height = 7\<rparr>"
proof -
  have ok: "WritePosition_init 0 0 1 5 (Some 7)
      = Inr \<lparr>xpos = 0, ypos = 0, width_WP = 1, height = 5, extended_height = 7\<rparr>"
    by (simp add: WritePosition_init_def)
  show ?thesis
    using WritePosition_init_contract [of "- 1" 0 1 5 None]
      WritePosition_init_contract [of 0 0 1 5 "Some 7"] ok
    by simp
qed

text \<open>
  C8 as stated fails: a supplied extended-height of 1 with height 5 is accepted and stored,
  and the constructed Write Position has extended-height below height.
\<close>

theorem WritePosition_init_counterexample:
  "WritePosition_init 0 0 1 5 (Some 1)
     = Inr \<lparr>xpos = 0, ypos = 0, width_WP = 1, height = 5, extended_height = 1\<rparr> \<and>
   \<not> height \<lparr>xpos = 0, ypos = 0, width_WP = 1, height = 5, extended_height = 1\<rparr>
     \<le> extended_height \<lparr>xpos = 0, ypos = 0, width_WP = 1, height = 5, extended_height = 1\<rparr>"
  by (simp add: WritePosition_init_def)

text \<open>
  C10. An explicit extended-height of 0 is accepted (it passes the assertion) and is not
  stored: the constructed Write Position has extended-height equal to height. No
  constructed Write Position has extended-height 0 with a height other than 0.
\<close>

theorem WritePosition_init_zero_extended_height:
  "(0 \<le> x \<and> 0 \<le> y \<and> 0 \<le> w \<and> 0 \<le> h \<longrightarrow>
      WritePosition_init x y w h (Some 0)
        = Inr \<lparr>xpos = x, ypos = y, width_WP = w, height = h, extended_height = h\<rparr>) \<and>
   (\<forall>wp. WritePosition_init x y w h eh = Inr wp \<and> extended_height wp = 0 \<longrightarrow> height wp = 0)"
  by (auto simp: WritePosition_init_def split: option.splits if_splits)

theorem WritePosition_init_zero_extended_height_witness:
  "WritePosition_init 2 3 4 5 (Some 0)
     = Inr \<lparr>xpos = 2, ypos = 3, width_WP = 4, height = 5, extended_height = 5\<rparr> \<and>
   WritePosition_init 2 3 4 0 (Some 0)
     = Inr \<lparr>xpos = 2, ypos = 3, width_WP = 4, height = 0, extended_height = 0\<rparr> \<and>
   height \<lparr>xpos = 2, ypos = 3, width_WP = 4, height = 0, extended_height = 0\<rparr> = 0"
proof -
  have ok: "WritePosition_init 2 3 4 0 (Some 0)
      = Inr \<lparr>xpos = 2, ypos = 3, width_WP = 4, height = 0, extended_height = 0\<rparr>"
    by (simp add: WritePosition_init_def)
  show ?thesis
    using WritePosition_init_zero_extended_height [of 2 3 4 5 "Some 0"]
      WritePosition_init_zero_extended_height [of 2 3 4 0 "Some 0"] ok
    by simp
qed

section \<open>The bracket-mismatch processor against the scan of the spec\<close>

text \<open>
  The processors index the stream by character offset (\<^verbatim>\<open>tokens[x]\<close> in the search
  processor), so the stream they are handed has one character per fragment: the spec's
  "conceptually flattened to one (style tag, single character) pair per position".
  \<open>styled\<close> builds such a stream from a literal.
\<close>

definition styled :: "Token \<Rightarrow> string \<Rightarrow> tokens" where
  "styled token s = map (\<lambda>c. (token, [of_char c])) s"

definition single_chars :: "tokens \<Rightarrow> bool" where
  "single_chars tokens = list_all (\<lambda>(token, text). length text = 1) tokens"

definition stream_chars :: "tokens \<Rightarrow> uchar list" where
  "stream_chars tokens = map (\<lambda>(token, text). hd text) tokens"

text \<open>
  The scan as the spec words it, on the characters alone: a stack of indices of unmatched
  opening brackets (top first) and the set of indices retagged so far. On a closing
  bracket the stack is popped when its top is the matching opener; otherwise (stack empty,
  or top not matching) the closing bracket alone is an error. After the scan every index
  left on the stack is an error. The brackets are the ones the source names:
  \<^verbatim>\<open>({[\<close> open and \<^verbatim>\<open>)}]\<close> close.
\<close>

definition opening_brackets :: "uchar list" where
  "opening_brackets = ustr ''({[''"

definition closing_brackets :: "uchar list" where
  "closing_brackets = ustr '')}]''"

definition bracket_pairs :: "(uchar \<times> uchar) list" where
  "bracket_pairs = zip opening_brackets closing_brackets"

definition scan_step :: "uchar list \<Rightarrow> nat \<Rightarrow> nat list \<times> nat set \<Rightarrow> nat list \<times> nat set" where
  "scan_step chars i = (\<lambda>(stack, errors).
     if chars ! i \<in> set closing_brackets then
       (case stack of
          [] \<Rightarrow> ([], insert i errors)
        | opener # rest \<Rightarrow>
            if (chars ! opener, chars ! i) \<in> set bracket_pairs then (rest, errors)
            else (stack, insert i errors))
     else if chars ! i \<in> set opening_brackets then (i # stack, errors)
     else (stack, errors))"

definition scan_errors :: "uchar list \<Rightarrow> nat set" where
  "scan_errors chars =
     (let (stack, errors) = fold (scan_step chars) [0 ..< length chars] ([], {})
      in errors \<union> set stack)"

definition retag_errors :: "nat set \<Rightarrow> tokens \<Rightarrow> tokens" where
  "retag_errors errors tokens =
     map (\<lambda>i. if i \<in> errors then (Token_Error, snd (tokens ! i)) else tokens ! i)
       [0 ..< length tokens]"

lemma length_stream_chars [simp]: "length (stream_chars tokens) = length tokens"
  by (simp add: stream_chars_def)

lemma str_in_single: "str_in [c] s = (c \<in> set s)"
  by (induction s) auto

lemma length_retag_errors [simp]: "length (retag_errors E tokens) = length tokens"
  by (simp add: retag_errors_def)

lemma nth_retag_errors:
  "i < length tokens \<Longrightarrow>
     retag_errors E tokens ! i = (if i \<in> E then (Token_Error, snd (tokens ! i)) else tokens ! i)"
  by (simp add: retag_errors_def)

lemma snd_nth_retag_errors [simp]:
  "i < length tokens \<Longrightarrow> snd (retag_errors E tokens ! i) = snd (tokens ! i)"
  by (simp add: nth_retag_errors)

lemma retag_errors_update:
  "k < length tokens \<Longrightarrow> snd (tokens ! k) = t \<Longrightarrow>
     (retag_errors E tokens)[k := (Token_Error, t)] = retag_errors (insert k E) tokens"
  by (rule nth_equalityI) (auto simp: nth_retag_errors nth_list_update)

lemma retag_errors_empty [simp]: "retag_errors {} tokens = tokens"
  by (rule nth_equalityI) (auto simp: nth_retag_errors)

lemma single_chars_nth:
  "single_chars tokens \<Longrightarrow> i < length tokens \<Longrightarrow> snd (tokens ! i) = [stream_chars tokens ! i]"
proof -
  assume a: "single_chars tokens" "i < length tokens"
  then have "length (snd (tokens ! i)) = 1"
    by (simp add: single_chars_def list_all_length case_prod_beta)
  then obtain c where "snd (tokens ! i) = [c]"
    by (cases "snd (tokens ! i)") auto
  with a show ?thesis
    by (simp add: stream_chars_def case_prod_beta)
qed

lemma brackets_body_refines:
  assumes sc: "single_chars tokens" and k: "k < length tokens"
    and st: "set stack \<subseteq> {..<k}"
  shows "brackets_body k (retag_errors E tokens, rev stack)
       = (case scan_step (stream_chars tokens) k (stack, E) of
            (stack', E') \<Rightarrow> (retag_errors E' tokens, rev stack'))"
proof -
  let ?cs = "stream_chars tokens"
  have tk: "snd (retag_errors E tokens ! k) = [?cs ! k]"
    using sc k by (simp add: single_chars_nth)
  have top: "stack \<noteq> [] \<Longrightarrow> snd (retag_errors E tokens ! last (rev stack)) = [?cs ! hd stack]"
  proof -
    assume ne: "stack \<noteq> []"
    then have "hd stack \<in> set stack" by simp
    with st k have "hd stack < length tokens" by auto
    with sc ne show ?thesis by (simp add: last_rev single_chars_nth)
  qed
  show ?thesis
  proof (cases stack)
    case Nil
    then show ?thesis
      using tk k
      by (auto simp: brackets_body_def scan_step_def Let_def str_in_single retag_errors_update
          closing_brackets_def opening_brackets_def bracket_pairs_def ustr_def)
  next
    case (Cons t rest)
    then show ?thesis
      using tk top k
      by (auto simp: brackets_body_def scan_step_def Let_def str_in_single retag_errors_update
          closing_brackets_def opening_brackets_def bracket_pairs_def ustr_def)
  qed
qed


lemma scan_step_bounds:
  "scan_step chars k (stack, E) = (stack', E') \<Longrightarrow> set stack \<subseteq> {..<k} \<Longrightarrow>
     set stack' \<subseteq> {..<Suc k}"
  by (fastforce simp: scan_step_def less_Suc_eq split: if_splits list.splits)

lemma brackets_loop_refines:
  assumes sc: "single_chars tokens"
  shows "k \<le> length tokens \<Longrightarrow>
     (case fold (scan_step (stream_chars tokens)) [0 ..< k] ([], {}) of
        (stack, E) \<Rightarrow>
          fold brackets_body [0 ..< k] (tokens, []) = (retag_errors E tokens, rev stack) \<and>
          set stack \<subseteq> {..<k})"
proof (induction k)
  case 0
  then show ?case by simp
next
  case (Suc k)
  obtain stack E where f: "fold (scan_step (stream_chars tokens)) [0 ..< k] ([], {}) = (stack, E)"
    by (cases "fold (scan_step (stream_chars tokens)) [0 ..< k] ([], {})")
  obtain stack' E' where s: "scan_step (stream_chars tokens) k (stack, E) = (stack', E')"
    by (cases "scan_step (stream_chars tokens) k (stack, E)")
  from Suc f have ih: "fold brackets_body [0 ..< k] (tokens, []) = (retag_errors E tokens, rev stack)"
    and bd: "set stack \<subseteq> {..<k}" by auto
  from Suc.prems have k: "k < length tokens" by simp
  show ?case
    using brackets_body_refines [OF sc k bd, of E] scan_step_bounds [OF s bd]
    by (simp add: f s ih)
qed

lemma final_retag:
  "set stack \<subseteq> {..<length tokens} \<Longrightarrow>
     fold (\<lambda>index ts. ts[index := (Token_Error, snd (ts ! index))]) stack (retag_errors E tokens)
       = retag_errors (E \<union> set stack) tokens"
proof (induction stack arbitrary: E)
  case Nil
  then show ?case by simp
next
  case (Cons a stack)
  then show ?case
    by (simp add: retag_errors_update [where t = "snd (tokens ! a)"])
qed

lemma BracketsMismatchProcessor_run_refines:
  assumes sc: "single_chars tokens"
  shows "BracketsMismatchProcessor_run cli buffer tokens
       = (retag_errors (scan_errors (stream_chars tokens)) tokens, \<lambda>i. i)"
proof -
  obtain stack E where
    f: "fold (scan_step (stream_chars tokens)) [0 ..< length tokens] ([], {}) = (stack, E)"
    by (cases "fold (scan_step (stream_chars tokens)) [0 ..< length tokens] ([], {})")
  with brackets_loop_refines [OF sc, of "length tokens"]
  have l: "fold brackets_body [0 ..< length tokens] (tokens, []) = (retag_errors E tokens, rev stack)"
    and bd: "set stack \<subseteq> {..<length tokens}" by auto
  have "set (rev stack) \<subseteq> {..<length tokens}" using bd by simp
  from final_retag [OF this, of E] show ?thesis
    by (simp add: BracketsMismatchProcessor_run_def scan_errors_def l f)
qed


text \<open>
  A balanced sequence of characters: empty, a character that is no bracket, a balanced
  sequence inside a matching pair, or two balanced sequences in a row.
\<close>

inductive balanced :: "uchar list \<Rightarrow> bool" where
  empty: "balanced []"
| other: "c \<notin> set opening_brackets \<Longrightarrow> c \<notin> set closing_brackets \<Longrightarrow> balanced [c]"
| nest: "balanced u \<Longrightarrow> (opener, closer) \<in> set bracket_pairs \<Longrightarrow> balanced (opener # u @ [closer])"
| seq: "balanced u \<Longrightarrow> balanced v \<Longrightarrow> balanced (u @ v)"

lemma bracket_pairs_cases:
  "(a, b) \<in> set bracket_pairs \<Longrightarrow>
     a \<in> set opening_brackets \<and> a \<notin> set closing_brackets \<and> b \<in> set closing_brackets"
  by (auto simp: bracket_pairs_def opening_brackets_def closing_brackets_def ustr_def)

lemma upt_nest: "[n ..< n + Suc (Suc k)] = n # [Suc n ..< Suc n + k] @ [n + Suc k]"
proof -
  have "[n ..< n + Suc (Suc k)] = n # [Suc n ..< Suc (Suc n + k)]"
    by (simp add: upt_conv_Cons del: upt_Suc)
  also have "[Suc n ..< Suc (Suc n + k)] = [Suc n ..< Suc n + k] @ [Suc n + k]"
    by (rule upt_Suc_append) simp
  finally show ?thesis by simp
qed

lemma scan_balanced_segment:
  "balanced w \<Longrightarrow>
     fold (scan_step (pre @ w @ post)) [length pre ..< length pre + length w] (stack, E)
       = (stack, E)"
proof (induction w arbitrary: pre post stack E rule: balanced.induct)
  case empty
  then show ?case by simp
next
  case (other c)
  then show ?case by (simp add: scan_step_def)
next
  case (nest u opener closer)
  define chars where "chars = pre @ (opener # u @ [closer]) @ post"
  have chars: "chars = (pre @ [opener]) @ u @ (closer # post)"
    by (simp add: chars_def)
  have o: "chars ! length pre = opener"
    by (simp add: chars_def)
  have c: "chars ! (length pre + Suc (length u)) = closer"
    by (simp add: chars_def nth_append)
  have range: "[length pre ..< length pre + length (opener # u @ [closer])]
      = length pre # [length (pre @ [opener]) ..< length (pre @ [opener]) + length u]
          @ [length pre + Suc (length u)]"
    using upt_nest [of "length pre" "length u"] by simp
  have step1: "scan_step chars (length pre) (stack, E) = (length pre # stack, E)"
    using bracket_pairs_cases [OF nest.hyps(2)] by (simp add: scan_step_def o)
  have step2: "fold (scan_step chars) [length (pre @ [opener]) ..< length (pre @ [opener]) + length u]
      (length pre # stack, E) = (length pre # stack, E)"
    unfolding chars by (rule nest.IH)
  have step3: "scan_step chars (length pre + Suc (length u)) (length pre # stack, E) = (stack, E)"
    using bracket_pairs_cases [OF nest.hyps(2)] nest.hyps(2)
    by (simp add: scan_step_def o c del: add_Suc_right)
  have "fold (scan_step chars) [length pre ..< length pre + length (opener # u @ [closer])] (stack, E)
      = scan_step chars (length pre + Suc (length u))
          (fold (scan_step chars) [length (pre @ [opener]) ..< length (pre @ [opener]) + length u]
             (scan_step chars (length pre) (stack, E)))"
    unfolding range by (simp only: fold_simps fold_append comp_apply)
  then show ?case
    unfolding chars_def [symmetric] by (simp only: step1 step2 step3)
next
  case (seq u v)
  have range: "[length pre ..< length pre + length (u @ v)]
      = [length pre ..< length pre + length u] @ [length (pre @ u) ..< length (pre @ u) + length v]"
    using upt_add_eq_append [of "length pre" "length pre + length u" "length v"]
    by (simp add: add.assoc)
  have 1: "fold (scan_step (pre @ (u @ v) @ post)) [length pre ..< length pre + length u] (stack, E)
      = (stack, E)"
    using seq.IH(1) [of pre "v @ post" stack E] by simp
  have 2: "fold (scan_step (pre @ (u @ v) @ post)) [length (pre @ u) ..< length (pre @ u) + length v]
      (stack, E) = (stack, E)"
    using seq.IH(2) [of "pre @ u" post stack E] by simp
  show ?case
    unfolding range by (simp only: fold_append comp_apply 1 2)
qed

lemma scan_errors_balanced: "balanced chars \<Longrightarrow> scan_errors chars = {}"
  using scan_balanced_segment [of chars "[]" "[]" "[]" "{}"] by (simp add: scan_errors_def)

text \<open>
  C4 (amended). On every stream of one-character fragments the processor computes the scan
  above: one left-to-right pass over the fixed brackets \<^verbatim>\<open>()[]{}\<close> (the set is not
  configurable here and angle brackets are not brackets for this processor), a stack of
  the indices of unmatched openers, a pop and no retag on a closing bracket whose opener is
  on top, an error tag on that closing bracket alone when the top does not match or the
  stack is empty, and an error tag on every index left on the stack. Texts and length are
  unchanged and the index remap is the identity.
\<close>

theorem BracketsMismatchProcessor_run_scan:
  "single_chars tokens \<Longrightarrow>
     BracketsMismatchProcessor_run cli buffer tokens
       = (retag_errors (scan_errors (stream_chars tokens)) tokens, \<lambda>i. i) \<and>
     length (fst (BracketsMismatchProcessor_run cli buffer tokens)) = length tokens \<and>
     map snd (fst (BracketsMismatchProcessor_run cli buffer tokens)) = map snd tokens"
proof -
  assume sc: "single_chars tokens"
  have "map snd (retag_errors (scan_errors (stream_chars tokens)) tokens) = map snd tokens"
    by (rule nth_equalityI) simp_all
  then show ?thesis
    by (simp add: BracketsMismatchProcessor_run_refines [OF sc])
qed

theorem BracketsMismatchProcessor_run_scan_witness:
  "single_chars (styled Token_root ''[(])'') \<and>
   scan_errors (ustr ''[(])'') = {0, 2} \<and>
   BracketsMismatchProcessor_run () () (styled Token_root ''[(])'')
     = ([(Token_Error, ustr ''[''), (Token_root, ustr ''(''),
         (Token_Error, ustr '']''), (Token_root, ustr '')'')], \<lambda>i. i)"
proof -
  have sc: "single_chars (styled Token_root ''[(])'')"
    by (simp add: single_chars_def styled_def)
  have chars: "stream_chars (styled Token_root ''[(])'') = ustr ''[(])''"
    by (simp add: stream_chars_def styled_def ustr_def)
  have scan: "scan_errors (ustr ''[(])'') = {0, 2}"
    by (simp add: scan_errors_def scan_step_def ustr_def upt_rec opening_brackets_def
        closing_brackets_def bracket_pairs_def numeral_2_eq_2)
  have "retag_errors {0, 2} (styled Token_root ''[(])'')
      = [(Token_Error, ustr ''[''), (Token_root, ustr ''(''),
         (Token_Error, ustr '']''), (Token_root, ustr '')'')]"
    by (simp add: retag_errors_def styled_def ustr_def upt_rec)
  then show ?thesis
    using BracketsMismatchProcessor_run_scan [OF sc, of "()" "()"] sc scan
    by (simp add: chars)
qed

text \<open>
  C4 as stated fails: the processor has no configurable bracket set and does not treat
  angle brackets as brackets. A lone \<^verbatim>\<open>>\<close> (a closer of the claimed default set, met
  with an empty stack) and a lone \<^verbatim>\<open><\<close> (an opener never closed) keep their tags.
\<close>

theorem BracketsMismatchProcessor_run_counterexample:
  "fst (BracketsMismatchProcessor_run () () (styled Token_root ''>'')) = [(Token_root, ustr ''>'')] \<and>
   fst (BracketsMismatchProcessor_run () () (styled Token_root ''<'')) = [(Token_root, ustr ''<'')]"
  by (simp add: BracketsMismatchProcessor_run_def brackets_body_def styled_def ustr_def Let_def)

text \<open>
  C5 (amended). On a balanced stream of one-character fragments the processor changes
  nothing; \<^verbatim>\<open>(a[b]c)\<close> gets no error tag; \<^verbatim>\<open>(a\<close> gets one error tag, on the
  \<^verbatim>\<open>(\<close>; and \<^verbatim>\<open>(a]\<close> gets two error tags, on the \<^verbatim>\<open>]\<close> and on the \<^verbatim>\<open>(\<close>
  that is left on the stack.
\<close>

theorem BracketsMismatchProcessor_run_balanced:
  "(single_chars tokens \<and> balanced (stream_chars tokens) \<longrightarrow>
      BracketsMismatchProcessor_run cli buffer tokens = (tokens, \<lambda>i. i)) \<and>
   fst (BracketsMismatchProcessor_run cli buffer (styled t ''(a[b]c)'')) = styled t ''(a[b]c)'' \<and>
   fst (BracketsMismatchProcessor_run cli buffer (styled t ''(a''))
     = [(Token_Error, ustr ''(''), (t, ustr ''a'')] \<and>
   fst (BracketsMismatchProcessor_run cli buffer (styled t ''(a]''))
     = [(Token_Error, ustr ''(''), (t, ustr ''a''), (Token_Error, ustr '']'')]"
proof -
  have 1: "single_chars tokens \<and> balanced (stream_chars tokens) \<longrightarrow>
      BracketsMismatchProcessor_run cli buffer tokens = (tokens, \<lambda>i. i)"
    by (simp add: BracketsMismatchProcessor_run_refines scan_errors_balanced)
  have 2: "fst (BracketsMismatchProcessor_run cli buffer (styled t ''(a[b]c)'')) = styled t ''(a[b]c)''"
    by (simp add: BracketsMismatchProcessor_run_def brackets_body_def styled_def ustr_def
        upt_rec Let_def)
  have 3: "fst (BracketsMismatchProcessor_run cli buffer (styled t ''(a''))
      = [(Token_Error, ustr ''(''), (t, ustr ''a'')]"
    by (simp add: BracketsMismatchProcessor_run_def brackets_body_def styled_def ustr_def
        upt_rec Let_def)
  have 4: "fst (BracketsMismatchProcessor_run cli buffer (styled t ''(a]''))
      = [(Token_Error, ustr ''(''), (t, ustr ''a''), (Token_Error, ustr '']'')]"
    by (simp add: BracketsMismatchProcessor_run_def brackets_body_def styled_def ustr_def
        upt_rec Let_def)
  from 1 2 3 4 show ?thesis by blast
qed

lemma balanced_example: "balanced (ustr ''(a[b]c)'')"
proof -
  have b: "balanced (ustr ''b'')" and a: "balanced (ustr ''a'')" and c: "balanced (ustr ''c'')"
    by (auto intro!: balanced.other simp: ustr_def opening_brackets_def closing_brackets_def)
  have "balanced (ustr ''['' @ ustr ''b'' @ ustr '']'')"
    using balanced.nest [OF b, of "of_char CHR ''[''" "of_char CHR '']''"]
    by (simp add: ustr_def bracket_pairs_def opening_brackets_def closing_brackets_def)
  from balanced.seq [OF balanced.seq [OF a this] c]
  have "balanced (ustr ''a[b]c'')" by (simp add: ustr_def)
  from balanced.nest [OF this, of "of_char CHR ''(''" "of_char CHR '')''"]
  show ?thesis by (simp add: ustr_def bracket_pairs_def opening_brackets_def closing_brackets_def)
qed

theorem BracketsMismatchProcessor_run_balanced_witness:
  "single_chars (styled Token_root ''(a[b]c)'') \<and>
   balanced (stream_chars (styled Token_root ''(a[b]c)'')) \<and>
   BracketsMismatchProcessor_run () () (styled Token_root ''(a[b]c)'')
     = (styled Token_root ''(a[b]c)'', \<lambda>i. i)"
proof -
  have sc: "single_chars (styled Token_root ''(a[b]c)'')"
    by (simp add: single_chars_def styled_def)
  have chars: "stream_chars (styled Token_root ''(a[b]c)'') = ustr ''(a[b]c)''"
    by (simp add: stream_chars_def styled_def ustr_def)
  show ?thesis
    using BracketsMismatchProcessor_run_balanced [of "styled Token_root ''(a[b]c)''" "()" "()"]
      sc balanced_example
    by (simp add: chars)
qed

text \<open>
  C5 as stated fails on \<^verbatim>\<open>(a]\<close>: the \<^verbatim>\<open>]\<close> does not match the \<^verbatim>\<open>(\<close> on top of
  the stack and is retagged, the \<^verbatim>\<open>(\<close> stays on the stack and is retagged after the
  scan. Two error tags, not one.
\<close>

theorem BracketsMismatchProcessor_run_unmatched_counterexample:
  "fst (BracketsMismatchProcessor_run () () (styled Token_root ''(a]''))
     = [(Token_Error, ustr ''(''), (Token_root, ustr ''a''), (Token_Error, ustr '']'')] \<and>
   length (filter (\<lambda>(token, text). token = Token_Error)
     (fst (BracketsMismatchProcessor_run () () (styled Token_root ''(a]'')))) = 2"
  by (simp add: BracketsMismatchProcessor_run_def brackets_body_def styled_def ustr_def
      upt_rec Let_def Token_Error_def Token_root_def)

section \<open>The search-highlight processor\<close>

text \<open>
  What the spec asks of the result, position by position: a character inside an occurrence
  of the search text is retagged, as "current search match" when the occurrence starts at
  the cursor offset and as "search match" otherwise; where reported occurrences overlap,
  the one listed last decides. \<open>retag_span\<close> is the effect of the inner loop.
\<close>

definition retag_span :: "Token \<Rightarrow> nat \<Rightarrow> nat \<Rightarrow> tokens \<Rightarrow> tokens" where
  "retag_span token index n tokens =
     map (\<lambda>x. if index \<le> x \<and> x < index + n then (token, snd (tokens ! x)) else tokens ! x)
       [0 ..< length tokens]"

definition search_highlight :: "nat \<Rightarrow> nat \<Rightarrow> nat list \<Rightarrow> tokens \<Rightarrow> tokens" where
  "search_highlight cursor n occurrences tokens =
     map (\<lambda>x. case find (\<lambda>index. index \<le> x \<and> x < index + n) (rev occurrences) of
                 None \<Rightarrow> tokens ! x
               | Some index \<Rightarrow>
                   (if index = cursor then Token_SearchMatch_Current else Token_SearchMatch,
                    snd (tokens ! x)))
       [0 ..< length tokens]"

lemma fold_err_append:
  "fold_err f (xs @ ys) s = (case fold_err f xs s of Inl e \<Rightarrow> Inl e | Inr s' \<Rightarrow> fold_err f ys s')"
  by (induction xs arbitrary: s) (auto split: sum.splits)

lemma length_retag_span [simp]: "length (retag_span token index n tokens) = length tokens"
  by (simp add: retag_span_def)

lemma length_search_highlight [simp]: "length (search_highlight cursor n occs tokens) = length tokens"
  by (simp add: search_highlight_def)

lemma retag_span_0 [simp]: "retag_span token index 0 tokens = tokens"
  by (rule nth_equalityI) (auto simp: retag_span_def)

lemma retag_retag_span:
  "index + n < length tokens \<Longrightarrow>
     retag token (index + n) (retag_span token index n tokens)
       = Inr (retag_span token index (Suc n) tokens)"
  unfolding retag_def
  by (auto intro!: nth_equalityI simp: retag_span_def nth_list_update)

lemma retag_loop:
  "index + n \<le> length tokens \<Longrightarrow>
     fold_err (retag token) [index ..< index + n] tokens
       = Inr (retag_span token index n tokens)"
proof (induction n)
  case 0
  then show ?case by simp
next
  case (Suc n)
  then show ?case
    by (simp add: fold_err_append retag_retag_span)
qed

lemma retag_span_search_highlight:
  "retag_span (if index = cursor then Token_SearchMatch_Current else Token_SearchMatch) index n
       (search_highlight cursor n occs tokens)
     = search_highlight cursor n (occs @ [index]) tokens"
  by (rule nth_equalityI) (auto simp: retag_span_def search_highlight_def split: option.splits)

lemma search_loop:
  "\<forall>index \<in> set occs. index + n \<le> length tokens \<Longrightarrow>
     fold_err
       (\<lambda>index. fold_err
          (retag (if index = cursor then Token_SearchMatch_Current else Token_SearchMatch))
          [index ..< index + n])
       occs tokens
     = Inr (search_highlight cursor n occs tokens)"
proof (induction occs rule: rev_induct)
  case Nil
  show ?case
    by (simp add: search_highlight_def map_nth)
next
  case (snoc index occs)
  then show ?case
    by (simp add: fold_err_append retag_loop retag_span_search_highlight Let_def)
qed

text \<open>
  Modelled from the spec: \<^verbatim>\<open>Document.find_all\<close> belongs to \<^verbatim>\<open>prompt_toolkit.document\<close>,
  which is not part of the sources at hand. It returns the start offsets of "every
  occurrence of the active search text", left to right. It is used for concrete runs only;
  the theorem below holds for whatever list the method returns.
\<close>

definition Document_find_all :: "ustring \<Rightarrow> ustring \<Rightarrow> nat list" where
  "Document_find_all text sub =
     filter (\<lambda>i. take (length sub) (drop i text) = sub \<and> i + length sub \<le> length text)
       [0 ..< Suc (length text)]"

text \<open>
  C6 (amended). With no active search the stream is returned as it is. With an active
  search whose reported occurrences lie inside the stream, the processor retags every
  character inside every reported occurrence with the "search match" tag, except that an
  occurrence that starts exactly at the cursor offset is retagged with the "current search
  match" tag (an occurrence that merely contains the cursor is an ordinary match); length
  and texts are unchanged and the index remap is the identity.
\<close>

theorem HighlightSearchProcessor_run_highlight:
  "(isearch_state buffer = None \<longrightarrow>
      HighlightSearchProcessor_run cli buffer tokens = Inr (tokens, \<lambda>i. i)) \<and>
   (\<forall>st. isearch_state buffer = Some st \<and>
      (\<forall>index \<in> set (document_find_all buffer (isearch_text st)).
          index + length (isearch_text st) \<le> length tokens) \<longrightarrow>
      HighlightSearchProcessor_run cli buffer tokens
        = Inr (search_highlight (cursor_position_Buffer buffer) (length (isearch_text st))
                 (document_find_all buffer (isearch_text st)) tokens, \<lambda>i. i) \<and>
      length (search_highlight (cursor_position_Buffer buffer) (length (isearch_text st))
                 (document_find_all buffer (isearch_text st)) tokens) = length tokens \<and>
      map snd (search_highlight (cursor_position_Buffer buffer) (length (isearch_text st))
                 (document_find_all buffer (isearch_text st)) tokens) = map snd tokens)"
proof -
  have "map snd (search_highlight c n occs tokens) = map snd tokens" for c n occs
    by (rule nth_equalityI) (auto simp: search_highlight_def split: option.splits)
  then show ?thesis
    by (simp add: HighlightSearchProcessor_run_def search_loop)
qed

theorem HighlightSearchProcessor_run_highlight_witness:
  "Document_find_all (ustr ''abab'') (ustr ''ab'') = [0, 2] \<and>
   length (styled Token_root ''abab'') = 4 \<and>
   HighlightSearchProcessor_run ()
     \<lparr>isearch_state = Some \<lparr>isearch_text = ustr ''ab''\<rparr>, cursor_position_Buffer = 2,
      document_find_all = Document_find_all (ustr ''abab'')\<rparr>
     (styled Token_root ''abab'')
   = Inr ([(Token_SearchMatch, ustr ''a''), (Token_SearchMatch, ustr ''b''),
           (Token_SearchMatch_Current, ustr ''a''), (Token_SearchMatch_Current, ustr ''b'')],
          \<lambda>i. i) \<and>
   HighlightSearchProcessor_run ()
     \<lparr>isearch_state = None, cursor_position_Buffer = 2,
      document_find_all = Document_find_all (ustr ''abab'')\<rparr>
     (styled Token_root ''abab'')
   = Inr (styled Token_root ''abab'', \<lambda>i. i)"
proof -
  have occs: "Document_find_all (ustr ''abab'') (ustr ''ab'') = [0, 2]"
    by (simp add: Document_find_all_def ustr_def upt_rec)
  have hl: "search_highlight 2 (length (ustr ''ab'')) [0, 2] (styled Token_root ''abab'')
      = [(Token_SearchMatch, ustr ''a''), (Token_SearchMatch, ustr ''b''),
         (Token_SearchMatch_Current, ustr ''a''), (Token_SearchMatch_Current, ustr ''b'')]"
    by (simp add: search_highlight_def styled_def ustr_def upt_rec)
  show ?thesis
    using HighlightSearchProcessor_run_highlight
      [of "\<lparr>isearch_state = Some \<lparr>isearch_text = ustr ''ab''\<rparr>, cursor_position_Buffer = 2,
            document_find_all = Document_find_all (ustr ''abab'')\<rparr>" "()"
          "styled Token_root ''abab''"]
      HighlightSearchProcessor_run_highlight
      [of "\<lparr>isearch_state = None, cursor_position_Buffer = 2,
            document_find_all = Document_find_all (ustr ''abab'')\<rparr>" "()"
          "styled Token_root ''abab''"]
    by (simp add: occs hl) (simp add: styled_def ustr_def)
qed

text \<open>
  C6 as stated fails: the occurrence of \<^verbatim>\<open>bc\<close> in \<^verbatim>\<open>abcd\<close> covers offsets 1 and 2;
  with the cursor at offset 2, inside the occurrence, it is tagged as an ordinary match.
\<close>

theorem HighlightSearchProcessor_run_counterexample:
  "HighlightSearchProcessor_run ()
     \<lparr>isearch_state = Some \<lparr>isearch_text = ustr ''bc''\<rparr>, cursor_position_Buffer = 2,
      document_find_all = Document_find_all (ustr ''abcd'')\<rparr>
     (styled Token_root ''abcd'')
   = Inr ([(Token_root, ustr ''a''), (Token_SearchMatch, ustr ''b''),
           (Token_SearchMatch, ustr ''c''), (Token_root, ustr ''d'')], \<lambda>i. i)"
  by (simp add: HighlightSearchProcessor_run_def Document_find_all_def styled_def ustr_def
      retag_def upt_rec Let_def)

section \<open>Before-insertion and after-insertion\<close>

lemma explode_tokens_append:
  "explode_tokens (xs @ ys) = explode_tokens xs @ explode_tokens ys"
  by (simp add: explode_tokens_def)

lemma length_explode_tokens: "length (explode_tokens tokenlist) = token_list_len tokenlist"
  by (induction tokenlist) (auto simp: explode_tokens_def token_list_len_def)

text \<open>
  C7. \<^verbatim>\<open>BeforeInput.run\<close> returns the generated prefix followed by the input, and its
  remap sends \<open>i\<close> to \<open>i + K\<close>, \<open>K\<close> the number of characters of the prefix: the
  character at offset \<open>i\<close> of the input is the character at the remapped offset of the
  output. Followed by any processor whose remap is the identity, the composed remap is
  still \<open>i + K\<close>. \<^verbatim>\<open>AfterInput.run\<close> appends its stream and returns the identity
  remap, and every input character keeps its offset.
\<close>

theorem BeforeInput_run_shift:
  "BeforeInput_run get_tokens cli buffer tokens
     = (get_tokens cli buffer @ tokens,
        \<lambda>i. i + length (explode_tokens (get_tokens cli buffer))) \<and>
   (\<forall>i < length (explode_tokens tokens).
      explode_tokens (fst (BeforeInput_run get_tokens cli buffer tokens))
        ! (snd (BeforeInput_run get_tokens cli buffer tokens) i) = explode_tokens tokens ! i) \<and>
   (\<forall>run2. (\<forall>ts. snd (run2 ts) = (\<lambda>i. i)) \<longrightarrow>
      (\<forall>i. snd (pipeline2 (BeforeInput_run get_tokens cli buffer) run2 tokens) i
             = i + length (explode_tokens (get_tokens cli buffer)))) \<and>
   AfterInput_run get_tokens' cli buffer tokens = (tokens @ get_tokens' cli buffer, \<lambda>i. i) \<and>
   (\<forall>i < length (explode_tokens tokens).
      explode_tokens (fst (AfterInput_run get_tokens' cli buffer tokens)) ! i
        = explode_tokens tokens ! i)"
proof -
  have 1: "BeforeInput_run get_tokens cli buffer tokens
      = (get_tokens cli buffer @ tokens,
         \<lambda>i. i + length (explode_tokens (get_tokens cli buffer)))"
    by (simp add: BeforeInput_run_def length_explode_tokens Let_def)
  have 2: "explode_tokens (get_tokens cli buffer @ tokens)
      ! (i + length (explode_tokens (get_tokens cli buffer))) = explode_tokens tokens ! i" for i
    by (simp add: explode_tokens_append nth_append)
  have 3: "snd (pipeline2 (BeforeInput_run get_tokens cli buffer) run2 tokens) i
      = i + length (explode_tokens (get_tokens cli buffer))"
    if "\<forall>ts. snd (run2 ts) = (\<lambda>i. i)" for run2 i
  proof -
    from that have "snd (run2 (get_tokens cli buffer @ tokens)) = (\<lambda>i. i)" by blast
    then show ?thesis
      by (simp add: pipeline2_def 1 case_prod_beta)
  qed
  have 4: "AfterInput_run get_tokens' cli buffer tokens = (tokens @ get_tokens' cli buffer, \<lambda>i. i)"
    by (simp add: AfterInput_run_def)
  have 5: "i < length (explode_tokens tokens) \<Longrightarrow>
      explode_tokens (tokens @ get_tokens' cli buffer) ! i = explode_tokens tokens ! i" for i
    by (simp add: explode_tokens_append nth_append)
  show ?thesis
    using 3 by (simp add: 1 2 4 5)
qed

theorem BeforeInput_run_shift_witness:
  "snd (BeforeInput_run (get_static_tokens (ustr ''>>> '') Token_root) () ()
          [(Token_root, ustr ''ab'')]) 1 = 5 \<and>
   explode_tokens (fst (BeforeInput_run (get_static_tokens (ustr ''>>> '') Token_root) () ()
          [(Token_root, ustr ''ab'')])) ! 5 = (Token_root, 98) \<and>
   snd (pipeline2 (BeforeInput_run (get_static_tokens (ustr ''>>> '') Token_root) () ())
          (AfterInput_run (get_static_tokens (ustr ''!'') Token_root) () ())
          [(Token_root, ustr ''ab'')]) 1 = 5 \<and>
   explode_tokens (fst (AfterInput_run (get_static_tokens (ustr ''!'') Token_root) () ()
          [(Token_root, ustr ''ab'')])) ! 1 = (Token_root, 98)"
proof -
  have id: "\<forall>ts. snd (AfterInput_run (get_static_tokens (ustr ''!'') Token_root) () () ts)
      = (\<lambda>i. i)"
    by (simp add: AfterInput_run_def)
  have len: "length (explode_tokens [(Token_root, ustr ''ab'')]) = 2"
    by (simp add: explode_tokens_def ustr_def)
  have pre: "length (explode_tokens (get_static_tokens (ustr ''>>> '') Token_root () ())) = 4"
    by (simp add: explode_tokens_def get_static_tokens_def ustr_def)
  have b: "explode_tokens [(Token_root, ustr ''ab'')] ! 1 = (Token_root, 98)"
    by (simp add: explode_tokens_def ustr_def)
  note t = BeforeInput_run_shift [of "get_static_tokens (ustr ''>>> '') Token_root" "()" "()"
      "[(Token_root, ustr ''ab'')]" "get_static_tokens (ustr ''!'') Token_root"]
  from t have s: "snd (BeforeInput_run (get_static_tokens (ustr ''>>> '') Token_root) () ()
          [(Token_root, ustr ''ab'')]) 1 = 5"
    by (simp add: pre)
  from t have e: "explode_tokens (fst (BeforeInput_run (get_static_tokens (ustr ''>>> '') Token_root)
          () () [(Token_root, ustr ''ab'')]))
        ! (snd (BeforeInput_run (get_static_tokens (ustr ''>>> '') Token_root) () ()
          [(Token_root, ustr ''ab'')]) 1) = explode_tokens [(Token_root, ustr ''ab'')] ! 1"
    using len by (metis one_less_numeral_iff semiring_norm(76))
  from t id have p: "snd (pipeline2 (BeforeInput_run (get_static_tokens (ustr ''>>> '') Token_root) () ())
          (AfterInput_run (get_static_tokens (ustr ''!'') Token_root) () ())
          [(Token_root, ustr ''ab'')]) 1 = 1 + 4"
    unfolding pre by blast
  from t have a: "explode_tokens (fst (AfterInput_run (get_static_tokens (ustr ''!'') Token_root) () ()
          [(Token_root, ustr ''ab'')])) ! 1 = explode_tokens [(Token_root, ustr ''ab'')] ! 1"
    using len by (metis one_less_numeral_iff semiring_norm(76))
  from s e p a b show ?thesis by simp
qed

section \<open>Screen.write_data: the index map and the grid\<close>

lemma cell_at_buffer_set:
  "cell_at (buffer_set b y x c) y' x' = (if y' = y \<and> x' = x then Some c else cell_at b y' x')"
  by (auto simp: cell_at_def buffer_set_def split: option.splits)

lemma fold_explode_tokens:
  "fold (\<lambda>(token, text). fold (f token) text) data s
     = fold (\<lambda>(token, char). f token char) (explode_tokens data) s"
proof (induction data arbitrary: s)
  case Nil
  then show ?case by (simp add: explode_tokens_def)
next
  case (Cons a data)
  obtain token frag where a: "a = (token, frag)" by (cases a)
  have inner: "fold (\<lambda>(token, char). f token char) (map (Pair token) frag) s = fold (f token) frag s" for s
    by (induction frag arbitrary: s) auto
  have "explode_tokens (a # data) = map (Pair token) frag @ explode_tokens data"
    by (simp add: explode_tokens_def a)
  then show ?case
    using Cons.IH by (simp add: a inner)
qed

text \<open>
  \<open>only_row_from y x b b'\<close>: the grid \<open>b'\<close> differs from \<open>b\<close> at most in row \<open>y\<close>,
  from column \<open>x\<close> on.
\<close>

definition only_row_from :: "nat \<Rightarrow> nat \<Rightarrow> grid \<Rightarrow> grid \<Rightarrow> bool" where
  "only_row_from y x b b' = (\<forall>y' x'. (y' \<noteq> y \<or> x' < x) \<longrightarrow> cell_at b' y' x' = cell_at b y' x')"

lemma only_row_from_refl [simp]: "only_row_from y x b b"
  by (simp add: only_row_from_def)

lemma only_row_from_trans:
  "only_row_from y x b b1 \<Longrightarrow> only_row_from y x1 b1 b2 \<Longrightarrow> x \<le> x1 \<Longrightarrow> only_row_from y x b b2"
  by (auto simp: only_row_from_def)

lemma store_char_fst: "fst (store_char cw y c (x, b)) = x + width_Char c"
  by (simp add: store_char_def Let_def)

lemma store_char_cell:
  "cell_at (snd (store_char cw y c (x, b))) y' x'
     = (if y' = y \<and> x' = x then Some c
        else if y' = y \<and> x' = x + 1 \<and> 1 < width_Char c then Some (Char_init cw [0] Token_root)
        else cell_at b y' x')"
  by (simp add: store_char_def Let_def cell_at_buffer_set)

lemma store_char_only_row_from: "only_row_from y x b (snd (store_char cw y c (x, b)))"
  by (simp add: only_row_from_def store_char_cell)

lemma margin_chars_frame:
  "fold (\<lambda>(token, char). store_char cw y (CHAR_CACHE cw (char, token))) cs (x, b) = (x', b') \<Longrightarrow>
     x \<le> x' \<and> only_row_from y x b b'"
proof (induction cs arbitrary: x b)
  case Nil
  then show ?case by simp
next
  case (Cons a cs)
  obtain token char where a: "a = (token, char)" by (cases a)
  let ?c = "CHAR_CACHE cw (char, token)"
  obtain x1 b1 where s: "store_char cw y ?c (x, b) = (x1, b1)" by (cases "store_char cw y ?c (x, b)")
  have x1: "x \<le> x1" using store_char_fst [of cw y ?c x b] s by simp
  have f1: "only_row_from y x b b1" using store_char_only_row_from [of y x b cw ?c] s by simp
  from Cons.prems have "fold (\<lambda>(token, char). store_char cw y (CHAR_CACHE cw (char, token))) cs (x1, b1) = (x', b')"
    by (simp add: a s)
  from Cons.IH [OF this] have "x1 \<le> x'" "only_row_from y x1 b1 b'" by auto
  with x1 f1 show ?case
    by (auto intro: only_row_from_trans)
qed

lemma do_line_feed_frame:
  "do_line_feed cw margin y x number (b, l) = (x', b', l') \<Longrightarrow> x \<le> x' \<and> only_row_from y x b b'"
proof (cases margin)
  case None
  assume "do_line_feed cw margin y x number (b, l) = (x', b', l')"
  with None show ?thesis by (auto simp: do_line_feed_def)
next
  case (Some m)
  assume d: "do_line_feed cw margin y x number (b, l) = (x', b', l')"
  have "fold (\<lambda>(token, char). store_char cw y (CHAR_CACHE cw (char, token)))
          (explode_tokens (m number)) (x, b) = (x', b')"
    using d Some
    by (simp add: do_line_feed_def fold_explode_tokens Let_def split: prod.splits)
  then show ?thesis by (rule margin_chars_frame)
qed

lemma do_line_feed_None:
  "do_line_feed cw None y x number (b, l)
     = (x, b, case number of None \<Rightarrow> l | Some n \<Rightarrow> l(y \<mapsto> n))"
  by (simp add: do_line_feed_def)


lemma write_body_decomp:
  fixes st :: write_state and cw :: "ustring \<Rightarrow> nat" and char :: uchar and token :: Token
  defines "w \<equiv> width_Char (CHAR_CACHE cw (char, token))"
  obtains x1 b1 l1 x2 y2 b2 l2 where
    "if st_requires_line_feed st
     then do_line_feed cw margin (st_y st) (st_x st) (Some (st_line_number st))
            (st_buffer st, st_screen_line_to_input_line st) = (x1, b1, l1)
     else (x1, b1, l1) = (st_x st, st_buffer st, st_screen_line_to_input_line st)"
    "if int (x1 + w) > max_x \<and> char \<noteq> newline
     then y2 = st_y st + 1 \<and> do_line_feed cw margin (st_y st + 1) 0 None (b1, l1) = (x2, b2, l2)
     else y2 = st_y st \<and> (x2, b2, l2) = (x1, b1, l1)"
    "st_indexes_to_pos (write_body cw max_x margin token char st)
       = (st_indexes_to_pos st)(st_index st \<mapsto> (x2, y2))"
    "st_index (write_body cw max_x margin token char st) = Suc (st_index st)"
    "st_x (write_body cw max_x margin token char st) = (if char = newline then 0 else x2 + w)"
    "st_y (write_body cw max_x margin token char st) = (if char = newline then y2 + 1 else y2)"
    "st_buffer (write_body cw max_x margin token char st)
       = (if char = newline then b2
          else snd (store_char cw y2 (CHAR_CACHE cw (char, token)) (x2, b2)))"
    "st_requires_line_feed (write_body cw max_x margin token char st) = (char = newline)"
    "st_screen_line_to_input_line (write_body cw max_x margin token char st) = l2"
proof -
  obtain x1 b1 l1 where 1:
    "(if st_requires_line_feed st
      then do_line_feed cw margin (st_y st) (st_x st) (Some (st_line_number st))
             (st_buffer st, st_screen_line_to_input_line st)
      else (st_x st, st_buffer st, st_screen_line_to_input_line st)) = (x1, b1, l1)"
    by (metis prod_cases3)
  obtain y2 x2 b2 l2 where 2:
    "(if int (x1 + w) > max_x \<and> char \<noteq> newline
      then (st_y st + 1, do_line_feed cw margin (st_y st + 1) 0 None (b1, l1))
      else (st_y st, x1, b1, l1)) = (y2, x2, b2, l2)"
    by (metis prod_cases4)
  show thesis
  proof (rule that [of x1 b1 l1 y2 x2 b2 l2])
    show "if st_requires_line_feed st
     then do_line_feed cw margin (st_y st) (st_x st) (Some (st_line_number st))
            (st_buffer st, st_screen_line_to_input_line st) = (x1, b1, l1)
     else (x1, b1, l1) = (st_x st, st_buffer st, st_screen_line_to_input_line st)"
      using 1 by (auto split: if_splits)
    show "if int (x1 + w) > max_x \<and> char \<noteq> newline
     then y2 = st_y st + 1 \<and> do_line_feed cw margin (st_y st + 1) 0 None (b1, l1) = (x2, b2, l2)
     else y2 = st_y st \<and> (x2, b2, l2) = (x1, b1, l1)"
      using 2 by (auto split: if_splits)
  qed (insert 1 2,
      auto simp: write_body_def Let_def w_def store_char_def split: if_splits prod.splits)
qed


text \<open>
  Positions in reading order: \<open>before_pos y' x' y x\<close> when \<open>(y', x')\<close> comes strictly
  before \<open>(y, x)\<close>, row first. \<open>unchanged_before y x b b'\<close>: every cell before
  \<open>(y, x)\<close> is the same in both grids.
\<close>

definition before_pos :: "nat \<Rightarrow> nat \<Rightarrow> nat \<Rightarrow> nat \<Rightarrow> bool" where
  "before_pos y' x' y x = (y' < y \<or> (y' = y \<and> x' < x))"

definition unchanged_before :: "nat \<Rightarrow> nat \<Rightarrow> grid \<Rightarrow> grid \<Rightarrow> bool" where
  "unchanged_before y x b b' = (\<forall>y' x'. before_pos y' x' y x \<longrightarrow> cell_at b' y' x' = cell_at b y' x')"

lemma write_body_index [simp]:
  "st_index (write_body cw max_x margin token char st) = Suc (st_index st)"
  by (rule write_body_decomp [where st = st and cw = cw and margin = margin and char = char and token = token and max_x = max_x])

lemma write_body_pos_other:
  "k \<noteq> st_index st \<Longrightarrow>
     st_indexes_to_pos (write_body cw max_x margin token char st) k = st_indexes_to_pos st k"
  by (rule write_body_decomp [where st = st and cw = cw and margin = margin and char = char and token = token and max_x = max_x]) simp

lemma write_body_pos_new:
  "st_indexes_to_pos (write_body cw max_x margin token char st) (st_index st) \<noteq> None"
  by (rule write_body_decomp [where st = st and cw = cw and margin = margin and char = char and token = token and max_x = max_x]) simp

lemma write_body_geometry:
  fixes st :: write_state and cw :: "ustring \<Rightarrow> nat" and char :: uchar and token :: Token
    and margin :: "margin option" and max_x :: int
  defines "st' \<equiv> write_body cw max_x margin token char st"
  defines "c \<equiv> CHAR_CACHE cw (char, token)"
  obtains px py where
    "st_indexes_to_pos st' (st_index st) = Some (px, py)"
    "\<not> before_pos py px (st_y st) (st_x st)"
    "st_y st' = (if char = newline then py + 1 else py)"
    "st_x st' = (if char = newline then 0 else px + width_Char c)"
    "char \<noteq> newline \<Longrightarrow> cell_at (st_buffer st') py px = Some c"
    "unchanged_before (st_y st) (st_x st) (st_buffer st) (st_buffer st')"
    "st_requires_line_feed st' = (char = newline)"
proof (rule write_body_decomp [where st = st and cw = cw and margin = margin and char = char and token = token and max_x = max_x])
  fix x1 b1 l1 x2 y2 b2 l2
  assume 1: "if st_requires_line_feed st
     then do_line_feed cw margin (st_y st) (st_x st) (Some (st_line_number st))
            (st_buffer st, st_screen_line_to_input_line st) = (x1, b1, l1)
     else (x1, b1, l1) = (st_x st, st_buffer st, st_screen_line_to_input_line st)"
  assume 2: "if int (x1 + width_Char (CHAR_CACHE cw (char, token))) > max_x \<and> char \<noteq> newline
     then y2 = st_y st + 1 \<and> do_line_feed cw margin (st_y st + 1) 0 None (b1, l1) = (x2, b2, l2)
     else y2 = st_y st \<and> (x2, b2, l2) = (x1, b1, l1)"
  assume pos: "st_indexes_to_pos (write_body cw max_x margin token char st)
       = (st_indexes_to_pos st)(st_index st \<mapsto> (x2, y2))"
  assume x: "st_x (write_body cw max_x margin token char st)
       = (if char = newline then 0 else x2 + width_Char (CHAR_CACHE cw (char, token)))"
  assume y: "st_y (write_body cw max_x margin token char st) = (if char = newline then y2 + 1 else y2)"
  assume b: "st_buffer (write_body cw max_x margin token char st)
       = (if char = newline then b2
          else snd (store_char cw y2 (CHAR_CACHE cw (char, token)) (x2, b2)))"
  assume r: "st_requires_line_feed (write_body cw max_x margin token char st) = (char = newline)"
  have f1: "st_x st \<le> x1 \<and> only_row_from (st_y st) (st_x st) (st_buffer st) b1"
    using 1 do_line_feed_frame [of cw margin "st_y st" "st_x st" "Some (st_line_number st)"
        "st_buffer st" "st_screen_line_to_input_line st" x1 b1 l1]
    by (auto split: if_splits)
  have f2: "(y2 = st_y st + 1 \<and> only_row_from (st_y st + 1) 0 b1 b2) \<or>
      (y2 = st_y st \<and> x2 = x1 \<and> b2 = b1)"
    using 2 do_line_feed_frame [of cw margin "st_y st + 1" 0 None b1 l1 x2 b2 l2]
    by (auto split: if_splits)
  have u2: "unchanged_before (st_y st) (st_x st) (st_buffer st) b2"
    using f1 f2 by (auto simp: unchanged_before_def before_pos_def only_row_from_def)
  have nb: "\<not> before_pos y2 x2 (st_y st) (st_x st)"
    using f1 f2 by (auto simp: before_pos_def)
  have u3: "unchanged_before (st_y st) (st_x st) (st_buffer st) (st_buffer st')"
    using u2 nb unfolding st'_def b
    by (auto simp: unchanged_before_def before_pos_def store_char_cell)
  show thesis
  proof (rule that [of x2 y2])
    show "st_indexes_to_pos st' (st_index st) = Some (x2, y2)"
      by (simp add: st'_def pos)
    show "\<not> before_pos y2 x2 (st_y st) (st_x st)" by (rule nb)
    show "st_y st' = (if char = newline then y2 + 1 else y2)"
      unfolding st'_def by (rule y)
    show "st_x st' = (if char = newline then 0 else x2 + width_Char c)"
      unfolding st'_def c_def by (rule x)
    show "char \<noteq> newline \<Longrightarrow> cell_at (st_buffer st') y2 x2 = Some c"
      unfolding st'_def b c_def by (simp add: store_char_cell)
    show "unchanged_before (st_y st) (st_x st) (st_buffer st) (st_buffer st')" by (rule u3)
    show "st_requires_line_feed st' = (char = newline)"
      by (simp add: st'_def r)
  qed
qed


text \<open>The loop body on a pair of the flattened stream.\<close>

abbreviation write_step ::
  "(ustring \<Rightarrow> nat) \<Rightarrow> int \<Rightarrow> margin option \<Rightarrow> Token \<times> uchar \<Rightarrow> write_state \<Rightarrow> write_state" where
  "write_step cw max_x margin \<equiv> \<lambda>(token, char). write_body cw max_x margin token char"

lemma before_pos_trans:
  "before_pos a b c d \<Longrightarrow> \<not> before_pos e f c d \<Longrightarrow> before_pos a b e f"
  by (auto simp: before_pos_def)

lemma unchanged_before_trans:
  assumes "unchanged_before y x b b1" and "unchanged_before y1 x1 b1 b2"
    and "\<not> before_pos y1 x1 y x"
  shows "unchanged_before y x b b2"
  unfolding unchanged_before_def
proof (intro allI impI)
  fix y' x' assume a: "before_pos y' x' y x"
  with assms(3) have "before_pos y' x' y1 x1"
    by (auto simp: before_pos_def)
  with assms(2) have "cell_at b2 y' x' = cell_at b1 y' x'"
    by (simp add: unchanged_before_def)
  also from a assms(1) have "\<dots> = cell_at b y' x'"
    by (simp add: unchanged_before_def)
  finally show "cell_at b2 y' x' = cell_at b y' x'" .
qed

lemma write_loop_monotone:
  "\<not> before_pos (st_y (fold (write_step cw max_x margin) cs st))
        (st_x (fold (write_step cw max_x margin) cs st)) (st_y st) (st_x st) \<and>
   unchanged_before (st_y st) (st_x st) (st_buffer st)
        (st_buffer (fold (write_step cw max_x margin) cs st))"
proof (induction cs arbitrary: st)
  case Nil
  show ?case by (simp add: before_pos_def unchanged_before_def)
next
  case (Cons a cs)
  obtain token char where a: "a = (token, char)" by (cases a)
  let ?st1 = "write_body cw max_x margin token char st"
  let ?fin = "fold (write_step cw max_x margin) cs ?st1"
  have step: "\<not> before_pos (st_y ?st1) (st_x ?st1) (st_y st) (st_x st) \<and>
      unchanged_before (st_y st) (st_x st) (st_buffer st) (st_buffer ?st1)"
    by (rule write_body_geometry [where st = st and cw = cw and margin = margin and char = char
          and token = token and max_x = max_x])
       (auto simp: before_pos_def split: if_splits)
  from Cons.IH [of ?st1]
  have ih: "\<not> before_pos (st_y ?fin) (st_x ?fin) (st_y ?st1) (st_x ?st1)"
    "unchanged_before (st_y ?st1) (st_x ?st1) (st_buffer ?st1) (st_buffer ?fin)" by auto
  have "\<not> before_pos (st_y ?fin) (st_x ?fin) (st_y st) (st_x st)"
    using step ih(1) by (auto simp: before_pos_def)
  moreover have "unchanged_before (st_y st) (st_x st) (st_buffer st) (st_buffer ?fin)"
    using step ih(2) by (blast intro: unchanged_before_trans)
  ultimately show ?case by (simp add: a)
qed

lemma write_loop_index [simp]:
  "st_index (fold (write_step cw max_x margin) cs st) = st_index st + length cs"
  by (induction cs arbitrary: st) (auto simp: case_prod_beta)

lemma write_loop_pos_old:
  "k < st_index st \<Longrightarrow>
     st_indexes_to_pos (fold (write_step cw max_x margin) cs st) k = st_indexes_to_pos st k"
  by (induction cs arbitrary: st) (auto simp: case_prod_beta write_body_pos_other)

lemma write_loop_dom:
  "dom (st_indexes_to_pos (fold (write_step cw max_x margin) cs st))
     = dom (st_indexes_to_pos st) \<union> {st_index st ..< st_index st + length cs}"
proof (induction cs arbitrary: st)
  case Nil
  show ?case by simp
next
  case (Cons a cs)
  obtain token char where a: "a = (token, char)" by (cases a)
  let ?st1 = "write_body cw max_x margin token char st"
  have "dom (st_indexes_to_pos ?st1) = insert (st_index st) (dom (st_indexes_to_pos st))"
    by (rule write_body_decomp [where st = st and cw = cw and margin = margin and char = char
          and token = token and max_x = max_x]) simp
  with Cons.IH [of ?st1] show ?case
    by (auto simp: a)
qed

lemma write_loop_cells:
  "i < length cs \<Longrightarrow> snd (cs ! i) \<noteq> newline \<Longrightarrow>
   0 < width_Char (CHAR_CACHE cw (snd (cs ! i), fst (cs ! i))) \<Longrightarrow>
   \<exists>px py. st_indexes_to_pos (fold (write_step cw max_x margin) cs st) (st_index st + i)
              = Some (px, py) \<and>
     cell_at (st_buffer (fold (write_step cw max_x margin) cs st)) py px
       = Some (CHAR_CACHE cw (snd (cs ! i), fst (cs ! i)))"
proof (induction cs arbitrary: st i)
  case Nil
  then show ?case by simp
next
  case (Cons a cs)
  obtain token char where a: "a = (token, char)" by (cases a)
  let ?st1 = "write_body cw max_x margin token char st"
  let ?fin = "fold (write_step cw max_x margin) cs ?st1"
  show ?case
  proof (cases i)
    case 0
    with Cons.prems have nl: "char \<noteq> newline" and w: "0 < width_Char (CHAR_CACHE cw (char, token))"
      by (simp_all add: a)
    obtain px py where p: "st_indexes_to_pos ?st1 (st_index st) = Some (px, py)"
      and c: "cell_at (st_buffer ?st1) py px = Some (CHAR_CACHE cw (char, token))"
      and b: "before_pos py px (st_y ?st1) (st_x ?st1)"
      by (rule write_body_geometry [where st = st and cw = cw and margin = margin and char = char
            and token = token and max_x = max_x])
         (use nl w in \<open>auto simp: before_pos_def\<close>)
    have "st_indexes_to_pos ?fin (st_index st) = Some (px, py)"
      using p by (simp add: write_loop_pos_old)
    moreover have "cell_at (st_buffer ?fin) py px = Some (CHAR_CACHE cw (char, token))"
      using write_loop_monotone [of cw max_x margin cs ?st1] b c
      by (auto simp: unchanged_before_def)
    ultimately show ?thesis
      by (simp add: a 0)
  next
    case (Suc j)
    with Cons.prems Cons.IH [of j ?st1] show ?thesis
      by (simp add: a)
  qed
qed


lemma write_body_newline_pos:
  "\<not> st_requires_line_feed st \<Longrightarrow>
     st_indexes_to_pos (write_body cw max_x margin token newline st) (st_index st)
       = Some (st_x st, st_y st)"
  by (rule write_body_decomp [where st = st and cw = cw and margin = margin and char = newline
        and token = token and max_x = max_x]) auto

lemma write_loop_newline_after_char:
  "Suc i < length cs \<Longrightarrow> snd (cs ! i) \<noteq> newline \<Longrightarrow> snd (cs ! Suc i) = newline \<Longrightarrow>
   \<exists>px py. st_indexes_to_pos (fold (write_step cw max_x margin) cs st) (st_index st + i)
              = Some (px, py) \<and>
     st_indexes_to_pos (fold (write_step cw max_x margin) cs st) (st_index st + Suc i)
       = Some (px + width_Char (CHAR_CACHE cw (snd (cs ! i), fst (cs ! i))), py)"
proof (induction cs arbitrary: st i)
  case Nil
  then show ?case by simp
next
  case (Cons a cs)
  obtain token char where a: "a = (token, char)" by (cases a)
  let ?st1 = "write_body cw max_x margin token char st"
  show ?case
  proof (cases i)
    case 0
    with Cons.prems obtain token' rest where cs: "cs = (token', newline) # rest"
      by (cases cs) (auto simp: a)
    from 0 Cons.prems have nl: "char \<noteq> newline" by (simp add: a)
    let ?st2 = "write_body cw max_x margin token' newline ?st1"
    let ?fin = "fold (write_step cw max_x margin) rest ?st2"
    obtain px py where p: "st_indexes_to_pos ?st1 (st_index st) = Some (px, py)"
      and y: "st_y ?st1 = py" and x: "st_x ?st1 = px + width_Char (CHAR_CACHE cw (char, token))"
      and r: "\<not> st_requires_line_feed ?st1"
      by (rule write_body_geometry [where st = st and cw = cw and margin = margin and char = char
            and token = token and max_x = max_x])
         (use nl in auto)
    have q: "st_indexes_to_pos ?st2 (Suc (st_index st))
        = Some (px + width_Char (CHAR_CACHE cw (char, token)), py)"
      using write_body_newline_pos [OF r, of cw max_x margin token'] by (simp add: x y)
    have p2: "st_indexes_to_pos ?st2 (st_index st) = Some (px, py)"
      using p by (simp add: write_body_pos_other)
    have "st_indexes_to_pos ?fin (st_index st) = Some (px, py)"
      using p2 by (simp add: write_loop_pos_old)
    moreover have "st_indexes_to_pos ?fin (Suc (st_index st))
        = Some (px + width_Char (CHAR_CACHE cw (char, token)), py)"
      using q by (simp add: write_loop_pos_old)
    ultimately show ?thesis
      by (simp add: a cs 0)
  next
    case (Suc j)
    with Cons.prems Cons.IH [of j ?st1] show ?thesis
      by (simp add: a)
  qed
qed

lemma write_loop_after_newline:
  "Suc i < length cs \<Longrightarrow> snd (cs ! i) = newline \<Longrightarrow>
   \<exists>px py qx qy. st_indexes_to_pos (fold (write_step cw max_x margin) cs st) (st_index st + i)
              = Some (px, py) \<and>
     st_indexes_to_pos (fold (write_step cw max_x margin) cs st) (st_index st + Suc i)
       = Some (qx, qy) \<and> py < qy"
proof (induction cs arbitrary: st i)
  case Nil
  then show ?case by simp
next
  case (Cons a cs)
  obtain token char where a: "a = (token, char)" by (cases a)
  let ?st1 = "write_body cw max_x margin token char st"
  show ?case
  proof (cases i)
    case 0
    with Cons.prems obtain token' char' rest where cs: "cs = (token', char') # rest"
      by (cases cs) auto
    from 0 Cons.prems have nl: "char = newline" by (simp add: a)
    let ?st2 = "write_body cw max_x margin token' char' ?st1"
    let ?fin = "fold (write_step cw max_x margin) rest ?st2"
    obtain px py where p: "st_indexes_to_pos ?st1 (st_index st) = Some (px, py)"
      and y: "st_y ?st1 = py + 1"
      by (rule write_body_geometry [where st = st and cw = cw and margin = margin and char = char
            and token = token and max_x = max_x])
         (use nl in auto)
    obtain qx qy where q: "st_indexes_to_pos ?st2 (st_index ?st1) = Some (qx, qy)"
      and nb: "\<not> before_pos qy qx (st_y ?st1) (st_x ?st1)"
      by (rule write_body_geometry [where st = ?st1 and cw = cw and margin = margin and char = char'
            and token = token' and max_x = max_x])
    from nb y have lt: "py < qy" by (auto simp: before_pos_def)
    have p2: "st_indexes_to_pos ?st2 (st_index st) = Some (px, py)"
      using p by (simp add: write_body_pos_other)
    have "st_indexes_to_pos ?fin (st_index st) = Some (px, py)"
      using p2 by (simp add: write_loop_pos_old)
    moreover have "st_indexes_to_pos ?fin (Suc (st_index st)) = Some (qx, qy)"
      using q by (simp add: write_loop_pos_old)
    ultimately show ?thesis
      using lt by (simp add: a cs 0)
  next
    case (Suc j)
    with Cons.prems Cons.IH [of j ?st1] show ?thesis
      by (simp add: a)
  qed
qed


text \<open>The local variables before the loop, and after it.\<close>

definition write_start :: "Screen \<Rightarrow> write_state" where
  "write_start self =
     \<lparr>st_x = 0, st_y = 0, st_index = 0, st_line_number = 0,
      st_requires_line_feed = True, st_indexes_to_pos = Map.empty,
      st_buffer = buffer_Screen self,
      st_screen_line_to_input_line = screen_line_to_input_line self\<rparr>"

definition write_final :: "(ustring \<Rightarrow> nat) \<Rightarrow> Screen \<Rightarrow> tokens \<Rightarrow> int \<Rightarrow> margin option \<Rightarrow> write_state" where
  "write_final cw self data width margin =
     fold (write_step cw width margin) (explode_tokens data) (write_start self)"

lemma write_data_final:
  "write_data cw self data width margin =
     (st_indexes_to_pos (write_final cw self data width margin),
      self\<lparr>buffer_Screen := st_buffer (write_final cw self data width margin),
           screen_line_to_input_line :=
             st_screen_line_to_input_line (write_final cw self data width margin),
           current_height :=
             max (current_height self) (int (st_y (write_final cw self data width margin)) + 1)\<rparr>)"
  by (simp add: write_data_def write_final_def write_start_def fold_explode_tokens Let_def)

lemma fst_write_data:
  "fst (write_data cw self data width margin)
     = st_indexes_to_pos (write_final cw self data width margin)"
  by (simp add: write_data_final)

lemma write_final_index0: "st_index (write_start self) = 0"
  by (simp add: write_start_def)

lemma write_final_pos0: "dom (st_indexes_to_pos (write_start self)) = {}"
  by (simp add: write_start_def)

lemma buffer_get_write_data:
  "buffer_get (snd (write_data cw self data width margin)) y x
     = (case cell_at (st_buffer (write_final cw self data width margin)) y x of
          None \<Rightarrow> default_char self | Some c \<Rightarrow> c)"
  by (simp add: write_data_final buffer_get_def split: option.splits)

text \<open>
  With no margin function, the loop body on a character that is no newline in closed form:
  the wrap test, the recorded position, the stored cell.
\<close>

lemma write_body_None_char:
  "char \<noteq> newline \<Longrightarrow>
   write_body cw max_x None token char st =
     (let c = CHAR_CACHE cw (char, token);
          wrap = (int (st_x st + width_Char c) > max_x);
          y = (if wrap then st_y st + 1 else st_y st);
          x = (if wrap then 0 else st_x st)
      in st\<lparr>st_x := x + width_Char c, st_y := y, st_index := st_index st + 1,
            st_requires_line_feed := False,
            st_indexes_to_pos := (st_indexes_to_pos st)(st_index st \<mapsto> (x, y)),
            st_buffer := snd (store_char cw y c (x, st_buffer st)),
            st_screen_line_to_input_line :=
              (if st_requires_line_feed st
               then (st_screen_line_to_input_line st)(st_y st \<mapsto> st_line_number st)
               else st_screen_line_to_input_line st)\<rparr>)"
  by (cases st) (simp add: write_body_def do_line_feed_None Let_def store_char_def)

text \<open>The cells of the concrete runs, under the width model.\<close>

lemma display_mappings_plain:
  "display_mappings [0x65] = None" "display_mappings [0x78] = None" "display_mappings [0x301] = None"
  by (simp_all add: display_mappings_def ustr_def)

lemma model_cells:
  "width_Char (CHAR_CACHE get_cwidth_model (0x65, Token_root)) = 1"
  "width_Char (CHAR_CACHE get_cwidth_model (0x301, Token_root)) = 0"
  "width_Char (CHAR_CACHE get_cwidth_model (0x78, Token_root)) = 1"
  "char_Char (CHAR_CACHE get_cwidth_model (0x78, Token_root)) = [0x78]"
  by (simp_all add: CHAR_CACHE_def Char_init_def display_mappings_plain get_cwidth_model_def
      char_cwidth_def Let_def)

lemma display_mappings_ab: "display_mappings [0x61] = None" "display_mappings [0x62] = None"
  by (simp_all add: display_mappings_def ustr_def)

lemma model_cells_ab:
  "width_Char (CHAR_CACHE get_cwidth_model (0x61, Token_root)) = 1"
  "width_Char (CHAR_CACHE get_cwidth_model (0x62, Token_root)) = 1"
  by (simp_all add: CHAR_CACHE_def Char_init_def display_mappings_ab get_cwidth_model_def
      char_cwidth_def Let_def)


text \<open>
  C1 (amended). Every offset of the stream, newlines included, is a key of the returned
  map, and there are no other keys. A newline that follows a visible character is recorded
  on that character's row, in the column right after it, whatever the width; the offset
  after a newline is recorded on a later row. Reading the grid at the recorded position of
  a character that is no newline and whose cell has a positive width yields the cell built
  for that character and its style tag: its glyph is the character, or the caret notation
  that \<^verbatim>\<open>Char\<close> substitutes for it.
\<close>

theorem write_data_index_map:
  "dom (fst (write_data cw self data width margin)) = {..<length (explode_tokens data)} \<and>
   (\<forall>i < length (explode_tokens data).
      snd (explode_tokens data ! i) \<noteq> newline \<and>
      0 < width_Char (CHAR_CACHE cw (snd (explode_tokens data ! i), fst (explode_tokens data ! i)))
      \<longrightarrow>
      (\<exists>x y. fst (write_data cw self data width margin) i = Some (x, y) \<and>
         buffer_get (snd (write_data cw self data width margin)) y x
           = CHAR_CACHE cw (snd (explode_tokens data ! i), fst (explode_tokens data ! i)))) \<and>
   (\<forall>i. Suc i < length (explode_tokens data) \<and>
      snd (explode_tokens data ! i) \<noteq> newline \<and> snd (explode_tokens data ! Suc i) = newline
      \<longrightarrow>
      (\<exists>x y. fst (write_data cw self data width margin) i = Some (x, y) \<and>
         fst (write_data cw self data width margin) (Suc i)
           = Some (x + width_Char (CHAR_CACHE cw (snd (explode_tokens data ! i),
                                                   fst (explode_tokens data ! i))), y))) \<and>
   (\<forall>i. Suc i < length (explode_tokens data) \<and> snd (explode_tokens data ! i) = newline
      \<longrightarrow>
      (\<exists>x y x' y'. fst (write_data cw self data width margin) i = Some (x, y) \<and>
         fst (write_data cw self data width margin) (Suc i) = Some (x', y') \<and> y < y'))"
proof -
  let ?cs = "explode_tokens data"
  let ?fin = "write_final cw self data width margin"
  have 1: "dom (fst (write_data cw self data width margin)) = {..<length ?cs}"
    using write_loop_dom [of cw width margin ?cs "write_start self"]
    by (auto simp: fst_write_data write_final_def write_final_index0 write_final_pos0)
  have 2: "\<exists>x y. fst (write_data cw self data width margin) i = Some (x, y) \<and>
         buffer_get (snd (write_data cw self data width margin)) y x
           = CHAR_CACHE cw (snd (?cs ! i), fst (?cs ! i))"
    if "i < length ?cs" "snd (?cs ! i) \<noteq> newline"
      "0 < width_Char (CHAR_CACHE cw (snd (?cs ! i), fst (?cs ! i)))" for i
  proof -
    from write_loop_cells [OF that, of width margin "write_start self"]
    obtain px py where "st_indexes_to_pos ?fin i = Some (px, py)"
      "cell_at (st_buffer ?fin) py px = Some (CHAR_CACHE cw (snd (?cs ! i), fst (?cs ! i)))"
      by (auto simp: write_final_def write_final_index0)
    then show ?thesis
      by (simp add: fst_write_data buffer_get_write_data)
  qed
  have 3: "\<exists>x y. fst (write_data cw self data width margin) i = Some (x, y) \<and>
         fst (write_data cw self data width margin) (Suc i)
           = Some (x + width_Char (CHAR_CACHE cw (snd (?cs ! i), fst (?cs ! i))), y)"
    if "Suc i < length ?cs" "snd (?cs ! i) \<noteq> newline" "snd (?cs ! Suc i) = newline" for i
    using write_loop_newline_after_char [OF that, of cw width margin "write_start self"]
    by (simp add: fst_write_data write_final_def write_final_index0)
  have 4: "\<exists>x y x' y'. fst (write_data cw self data width margin) i = Some (x, y) \<and>
         fst (write_data cw self data width margin) (Suc i) = Some (x', y') \<and> y < y'"
    if "Suc i < length ?cs" "snd (?cs ! i) = newline" for i
    using write_loop_after_newline [OF that, of cw width margin "write_start self"]
    by (simp add: fst_write_data write_final_def write_final_index0)
  from 1 2 3 4 show ?thesis by blast
qed


theorem write_data_index_map_witness:
  "dom (fst (write_data get_cwidth_model (Screen_init get_cwidth_model 5 None)
          [(Token_root, [0x61, 0x0a, 0x62])] 5 None)) = {..<3} \<and>
   (\<exists>x y. fst (write_data get_cwidth_model (Screen_init get_cwidth_model 5 None)
          [(Token_root, [0x61, 0x0a, 0x62])] 5 None) 0 = Some (x, y) \<and>
      buffer_get (snd (write_data get_cwidth_model (Screen_init get_cwidth_model 5 None)
          [(Token_root, [0x61, 0x0a, 0x62])] 5 None)) y x
        = CHAR_CACHE get_cwidth_model (0x61, Token_root)) \<and>
   (\<exists>x y. fst (write_data get_cwidth_model (Screen_init get_cwidth_model 5 None)
          [(Token_root, [0x61, 0x0a, 0x62])] 5 None) 0 = Some (x, y) \<and>
      fst (write_data get_cwidth_model (Screen_init get_cwidth_model 5 None)
          [(Token_root, [0x61, 0x0a, 0x62])] 5 None) 1 = Some (x + 1, y)) \<and>
   (\<exists>x y x' y'. fst (write_data get_cwidth_model (Screen_init get_cwidth_model 5 None)
          [(Token_root, [0x61, 0x0a, 0x62])] 5 None) 1 = Some (x, y) \<and>
      fst (write_data get_cwidth_model (Screen_init get_cwidth_model 5 None)
          [(Token_root, [0x61, 0x0a, 0x62])] 5 None) 2 = Some (x', y') \<and> y < y')"
proof -
  let ?R = "write_data get_cwidth_model (Screen_init get_cwidth_model 5 None)
          [(Token_root, [0x61, 0x0a, 0x62])] 5 None"
  have ex: "explode_tokens [(Token_root, [0x61, 0x0a, 0x62])]
      = [(Token_root, 0x61), (Token_root, 0x0a), (Token_root, 0x62)]"
    by (simp add: explode_tokens_def)
  note t = write_data_index_map [of get_cwidth_model "Screen_init get_cwidth_model 5 None"
      "[(Token_root, [0x61, 0x0a, 0x62])]" 5 None, unfolded ex]
  from t [THEN conjunct1] have d: "dom (fst ?R) = {..<3}" by simp
  from t [THEN conjunct2, THEN conjunct1, rule_format, of 0]
  have a: "\<exists>x y. fst ?R 0 = Some (x, y) \<and>
      buffer_get (snd ?R) y x = CHAR_CACHE get_cwidth_model (0x61, Token_root)"
    by (simp add: newline_def model_cells_ab)
  from t [THEN conjunct2, THEN conjunct2, THEN conjunct1, rule_format, of 0]
  have b: "\<exists>x y. fst ?R 0 = Some (x, y) \<and> fst ?R 1 = Some (x + 1, y)"
    by (simp add: newline_def model_cells_ab)
  from t [THEN conjunct2, THEN conjunct2, THEN conjunct2, rule_format, of 1]
  have c: "\<exists>x y x' y'. fst ?R 1 = Some (x, y) \<and> fst ?R 2 = Some (x', y') \<and> y < y'"
    by (simp add: newline_def numeral_2_eq_2)
  from d a b c show ?thesis by blast
qed


text \<open>
  C1 as stated fails for a character of width 0: the column does not advance after it, and
  the next character is written over it. In \<^verbatim>\<open>e\<close>, U+0301 (combining acute accent),
  \<^verbatim>\<open>x\<close> the accent at offset 1 is recorded at column 1 of row 0, where the grid holds
  the \<^verbatim>\<open>x\<close>.
\<close>

theorem write_data_index_map_counterexample:
  "fst (write_data get_cwidth_model (Screen_init get_cwidth_model 5 None)
          [(Token_root, [0x65, 0x301, 0x78])] 5 None) 1 = Some (1, 0) \<and>
   char_Char (buffer_get (snd (write_data get_cwidth_model (Screen_init get_cwidth_model 5 None)
          [(Token_root, [0x65, 0x301, 0x78])] 5 None)) 0 1) = [0x78]"
  by (simp add: fst_write_data buffer_get_write_data write_final_def write_start_def
      explode_tokens_def write_body_None_char newline_def model_cells Let_def
      store_char_def cell_at_buffer_set)



text \<open>
  C9. \<^verbatim>\<open>write_data\<close> returns the screen with at most the grid, the line mapping and
  \<^verbatim>\<open>current_height\<close> changed: the cursor position, the menu position, the width and
  the default cell are the ones it was given, and \<^verbatim>\<open>current_height\<close> does not decrease.
\<close>

theorem write_data_frame:
  "cursor_position (snd (write_data cw self data width margin)) = cursor_position self \<and>
   menu_position (snd (write_data cw self data width margin)) = menu_position self \<and>
   width_Screen (snd (write_data cw self data width margin)) = width_Screen self \<and>
   default_char (snd (write_data cw self data width margin)) = default_char self \<and>
   current_height self \<le> current_height (snd (write_data cw self data width margin)) \<and>
   (\<exists>b l h. snd (write_data cw self data width margin)
              = self\<lparr>buffer_Screen := b, screen_line_to_input_line := l, current_height := h\<rparr>)"
  by (simp add: write_data_final) blast

theorem write_data_frame_witness:
  "cursor_position (snd (write_data get_cwidth_model (Screen_init get_cwidth_model 5 None)
          [(Token_root, [0x61, 0x0a, 0x62])] 5 None)) = (0, 0) \<and>
   menu_position (snd (write_data get_cwidth_model (Screen_init get_cwidth_model 5 None)
          [(Token_root, [0x61, 0x0a, 0x62])] 5 None)) = None \<and>
   width_Screen (snd (write_data get_cwidth_model (Screen_init get_cwidth_model 5 None)
          [(Token_root, [0x61, 0x0a, 0x62])] 5 None)) = 5 \<and>
   1 \<le> current_height (snd (write_data get_cwidth_model (Screen_init get_cwidth_model 5 None)
          [(Token_root, [0x61, 0x0a, 0x62])] 5 None))"
  using write_data_frame [of get_cwidth_model "Screen_init get_cwidth_model 5 None"
      "[(Token_root, [0x61, 0x0a, 0x62])]" 5 None]
  by (simp add: Screen_init_def)

section \<open>Screen.write_data: wrapping plain text\<close>

lemma write_body_plain:
  assumes W: "0 < W" and nl: "char \<noteq> newline"
    and w: "width_Char (CHAR_CACHE cw (char, token)) = 1" and x: "st_x st \<le> W"
  defines "st' \<equiv> write_body cw (int W) None token char st"
  defines "m \<equiv> st_y st * W + st_x st"
  shows "st_indexes_to_pos st' (st_index st) = Some (m mod W, m div W)"
    and "st_y st' * W + st_x st' = Suc m"
    and "st_x st' \<le> W" and "0 < st_x st'"
    and "W \<le> x' \<Longrightarrow> cell_at (st_buffer st') y' x' = cell_at (st_buffer st) y' x'"
proof -
  show "st_indexes_to_pos st' (st_index st) = Some (m mod W, m div W)"
  proof (cases "st_x st = W")
    case True
    then have "m = (st_y st + 1) * W" by (simp add: m_def)
    then have "m mod W = 0" "m div W = st_y st + 1" using W by simp_all
    with True show ?thesis
      by (simp add: st'_def write_body_None_char [OF nl] w Let_def)
  next
    case False
    with x have lt: "st_x st < W" by simp
    then have "m mod W = st_x st" "m div W = st_y st" by (simp_all add: m_def)
    with lt show ?thesis
      by (simp add: st'_def write_body_None_char [OF nl] w Let_def)
  qed
  show "st_y st' * W + st_x st' = Suc m"
    using x by (auto simp: st'_def m_def write_body_None_char [OF nl] w Let_def)
  show "st_x st' \<le> W"
    using x W by (auto simp: st'_def write_body_None_char [OF nl] w Let_def)
  show "0 < st_x st'"
    by (simp add: st'_def write_body_None_char [OF nl] w Let_def)
  show "W \<le> x' \<Longrightarrow> cell_at (st_buffer st') y' x' = cell_at (st_buffer st) y' x'"
    using x W by (auto simp: st'_def write_body_None_char [OF nl] w Let_def store_char_cell)
qed

text \<open>
  A stream of plain characters: no newline, and every cell one column wide (which excludes
  the control characters that \<^verbatim>\<open>Char\<close> shows in caret notation).
\<close>

definition plain_chars :: "(ustring \<Rightarrow> nat) \<Rightarrow> (Token \<times> uchar) list \<Rightarrow> bool" where
  "plain_chars cw cs =
     list_all (\<lambda>(token, char). char \<noteq> newline \<and> width_Char (CHAR_CACHE cw (char, token)) = 1) cs"

lemma write_loop_plain:
  assumes W: "0 < W"
  shows "plain_chars cw cs \<Longrightarrow> st_x st \<le> W \<Longrightarrow>
    (\<forall>i < length cs.
        st_indexes_to_pos (fold (write_step cw (int W) None) cs st) (st_index st + i)
          = Some ((st_y st * W + st_x st + i) mod W, (st_y st * W + st_x st + i) div W)) \<and>
    st_y (fold (write_step cw (int W) None) cs st) * W
      + st_x (fold (write_step cw (int W) None) cs st) = st_y st * W + st_x st + length cs \<and>
    st_x (fold (write_step cw (int W) None) cs st) \<le> W \<and>
    (cs \<noteq> [] \<longrightarrow> 0 < st_x (fold (write_step cw (int W) None) cs st)) \<and>
    (\<forall>y' x'. W \<le> x' \<longrightarrow>
        cell_at (st_buffer (fold (write_step cw (int W) None) cs st)) y' x'
          = cell_at (st_buffer st) y' x')"
proof (induction cs arbitrary: st)
  case Nil
  then show ?case by simp
next
  case (Cons a cs)
  obtain token char where a: "a = (token, char)" by (cases a)
  from Cons.prems(1) have nl: "char \<noteq> newline"
    and w: "width_Char (CHAR_CACHE cw (char, token)) = 1" and rest: "plain_chars cw cs"
    by (simp_all add: plain_chars_def a)
  let ?st1 = "write_body cw (int W) None token char st"
  let ?fin = "fold (write_step cw (int W) None) cs ?st1"
  let ?m = "st_y st * W + st_x st"
  note s = write_body_plain [OF W nl w Cons.prems(2)]
  note ih = Cons.IH [OF rest s(3)]
  have m1: "st_y ?st1 * W + st_x ?st1 = Suc ?m" by (rule s(2))
  have pos: "st_indexes_to_pos ?fin (st_index st + i) = Some ((?m + i) mod W, (?m + i) div W)"
    if "i < Suc (length cs)" for i
  proof (cases i)
    case 0
    then show ?thesis
      using s(1) by (simp add: write_loop_pos_old)
  next
    case (Suc j)
    with that have "j < length cs" by simp
    with ih have "st_indexes_to_pos ?fin (st_index ?st1 + j)
        = Some ((st_y ?st1 * W + st_x ?st1 + j) mod W, (st_y ?st1 * W + st_x ?st1 + j) div W)"
      by blast
    then show ?thesis
      by (simp add: m1 Suc)
  qed
  have tot: "st_y ?fin * W + st_x ?fin = ?m + Suc (length cs)"
    using ih m1 by simp
  have le: "st_x ?fin \<le> W" using ih by blast
  have gt: "0 < st_x ?fin"
    using ih s(4) by (cases cs) auto
  have cells: "cell_at (st_buffer ?fin) y' x' = cell_at (st_buffer st) y' x'" if "W \<le> x'" for y' x'
    using ih s(5) [OF that] that by simp
  from pos tot le gt cells show ?case
    by (simp add: a)
qed

lemma ceil_div:
  fixes N W :: nat
  assumes "0 < N" "0 < W"
  shows "(N + W - Suc 0) div W = Suc ((N - Suc 0) div W)"
proof -
  from assms have e: "N + W - Suc 0 = (N - Suc 0) + W" by arith
  have "((N - Suc 0) + W) div W = (N - Suc 0) div W + 1"
    using assms(2) by (intro div_add_self2) simp
  then show ?thesis unfolding e by simp
qed

lemma last_row:
  fixes W :: nat
  assumes "y * W + x = N" "0 < x" "x \<le> W"
  shows "y = (N - Suc 0) div W"
proof -
  from assms have e: "N - Suc 0 = (x - Suc 0) + y * W" by arith
  from assms have "x - Suc 0 < W" by arith
  then have "((x - Suc 0) + y * W) div W = y"
    by simp
  then show ?thesis unfolding e by simp
qed


lemma rows_of_indices:
  fixes N W :: nat
  assumes "0 < N" "0 < W"
  shows "(\<lambda>i. i div W) ` {..<N} = {..<(N + W - Suc 0) div W}"
proof (intro set_eqI iffI)
  fix y assume "y \<in> (\<lambda>i. i div W) ` {..<N}"
  then obtain i where "i < N" "y = i div W" by auto
  then have "y \<le> (N - Suc 0) div W" by (simp add: div_le_mono)
  then show "y \<in> {..<(N + W - Suc 0) div W}"
    unfolding ceil_div [OF assms] by simp
next
  fix y assume "y \<in> {..<(N + W - Suc 0) div W}"
  then have "y \<le> (N - Suc 0) div W" unfolding ceil_div [OF assms] by simp
  then have "y * W \<le> (N - Suc 0) div W * W" by (rule mult_le_mono1)
  also have "\<dots> \<le> N - Suc 0" by (rule div_times_less_eq_dividend)
  finally have "y * W < N" using assms by arith
  moreover have "y * W div W = y" using assms by simp
  ultimately have "y * W \<in> {..<N} \<and> y = (\<lambda>i. i div W) (y * W)" by simp
  then show "y \<in> (\<lambda>i. i div W) ` {..<N}" by (blast intro: image_eqI)
qed

lemma row_card:
  fixes W :: nat
  assumes "0 < W"
  shows "card {i. i < N \<and> i div W = y} \<le> W"
proof -
  have sub: "{i. i < N \<and> i div W = y} \<subseteq> {y * W ..< y * W + W}"
  proof
    fix i assume "i \<in> {i. i < N \<and> i div W = y}"
    then have d: "i div W = y" by simp
    have "i div W * W + i mod W = i" by (rule div_mult_mod_eq)
    moreover have "i mod W < W" using assms by simp
    ultimately have "y * W \<le> i \<and> i < y * W + W" unfolding d by arith
    then show "i \<in> {y * W ..< y * W + W}" by simp
  qed
  have "card {i. i < N \<and> i div W = y} \<le> card {y * W ..< y * W + W}"
    by (rule card_mono [OF _ sub]) simp
  then show ?thesis by simp
qed

lemma display_mappings_printable:
  "0x20 \<le> c \<Longrightarrow> c \<noteq> 0x7f \<Longrightarrow> display_mappings [c] = None"
  by (auto simp: display_mappings_def ustr_def)

lemma plain_chars_example:
  "plain_chars get_cwidth_model (explode_tokens [(Token_root, ustr ''abcde'')])"
  by (simp add: plain_chars_def explode_tokens_def ustr_def newline_def CHAR_CACHE_def
      Char_init_def display_mappings_printable get_cwidth_model_def char_cwidth_def)


text \<open>
  C3. A stream of \<open>N \<ge> 1\<close> plain characters written with target width \<open>W \<ge> 1\<close> and
  no margin: character \<open>i\<close> is placed, and found in the grid, at column \<open>i mod W\<close> of
  row \<open>i div W\<close>. The rows used are exactly the first \<open>ceil(N/W)\<close> rows
  (\<open>(N + W - 1) div W\<close>), no row receives more than \<open>W\<close> characters, no cell at a
  column \<open>\<ge> W\<close> is touched, and the used height becomes at least \<open>ceil(N/W)\<close>.
\<close>

theorem write_data_wrap:
  assumes W: "0 < W" and plain: "plain_chars cw (explode_tokens data)"
    and N: "N = length (explode_tokens data)" and pos: "0 < N"
  shows "(\<forall>i < N.
           fst (write_data cw self data (int W) None) i = Some (i mod W, i div W) \<and>
           buffer_get (snd (write_data cw self data (int W) None)) (i div W) (i mod W)
             = CHAR_CACHE cw (snd (explode_tokens data ! i), fst (explode_tokens data ! i))) \<and>
         snd ` ran (fst (write_data cw self data (int W) None)) = {..<(N + W - 1) div W} \<and>
         (\<forall>y. card {i. i < N \<and> (\<exists>x. fst (write_data cw self data (int W) None) i = Some (x, y))}
                \<le> W) \<and>
         current_height (snd (write_data cw self data (int W) None))
           = max (current_height self) (int ((N + W - 1) div W)) \<and>
         (\<forall>y x. W \<le> x \<longrightarrow>
            cell_at (buffer_Screen (snd (write_data cw self data (int W) None))) y x
              = cell_at (buffer_Screen self) y x)"
proof -
  let ?cs = "explode_tokens data"
  let ?fin = "write_final cw self data (int W) None"
  let ?pos = "fst (write_data cw self data (int W) None)"
  have start: "st_x (write_start self) = 0" "st_y (write_start self) = 0"
    "st_buffer (write_start self) = buffer_Screen self"
    by (simp_all add: write_start_def)
  from write_loop_plain [OF W plain, of "write_start self"]
  have p: "\<forall>i < N. st_indexes_to_pos ?fin i = Some (i mod W, i div W)"
    and tot: "st_y ?fin * W + st_x ?fin = N"
    and le: "st_x ?fin \<le> W"
    and gt: "0 < st_x ?fin"
    and frame: "\<forall>y x. W \<le> x \<longrightarrow> cell_at (st_buffer ?fin) y x = cell_at (buffer_Screen self) y x"
    using pos by (auto simp: write_final_def start write_final_index0 N)
  have pos_eq: "?pos i = Some (i mod W, i div W)" if "i < N" for i
    using p that by (simp add: fst_write_data)
  have dom: "dom ?pos = {..<N}"
    using write_loop_dom [of cw "int W" None ?cs "write_start self"]
    by (auto simp: fst_write_data write_final_def write_final_index0 write_final_pos0 N)
  have cell: "buffer_get (snd (write_data cw self data (int W) None)) (i div W) (i mod W)
      = CHAR_CACHE cw (snd (?cs ! i), fst (?cs ! i))" if "i < N" for i
  proof -
    from that plain have "snd (?cs ! i) \<noteq> newline"
      "0 < width_Char (CHAR_CACHE cw (snd (?cs ! i), fst (?cs ! i)))"
      by (auto simp: plain_chars_def list_all_length N case_prod_beta)
    from write_loop_cells [OF that [unfolded N] this, of "int W" None "write_start self"]
    obtain px py where "st_indexes_to_pos ?fin i = Some (px, py)"
      "cell_at (st_buffer ?fin) py px = Some (CHAR_CACHE cw (snd (?cs ! i), fst (?cs ! i)))"
      by (auto simp: write_final_def write_final_index0)
    with p that show ?thesis
      by (simp add: buffer_get_write_data)
  qed
  have ran: "ran ?pos = (\<lambda>i. (i mod W, i div W)) ` {..<N}"
  proof (intro set_eqI iffI)
    fix q assume "q \<in> ran ?pos"
    then obtain i where i: "?pos i = Some q" by (auto simp: ran_def)
    then have "i \<in> dom ?pos" by blast
    with dom have "i < N" by simp
    with pos_eq i show "q \<in> (\<lambda>i. (i mod W, i div W)) ` {..<N}" by auto
  next
    fix q assume "q \<in> (\<lambda>i. (i mod W, i div W)) ` {..<N}"
    then obtain i where "i < N" "q = (i mod W, i div W)" by auto
    with pos_eq show "q \<in> ran ?pos" by (auto simp: ran_def)
  qed
  have rows: "snd ` ran ?pos = {..<(N + W - 1) div W}"
    unfolding ran image_image using rows_of_indices [OF pos W] by simp
  have count: "card {i. i < N \<and> (\<exists>x. ?pos i = Some (x, y))} \<le> W" for y
  proof -
    have "{i. i < N \<and> (\<exists>x. ?pos i = Some (x, y))} = {i. i < N \<and> i div W = y}"
      using pos_eq by auto
    then show ?thesis using row_card [OF W, of N y] by simp
  qed
  have "st_y ?fin = (N - Suc 0) div W"
    by (rule last_row [OF tot gt le])
  then have height: "current_height (snd (write_data cw self data (int W) None))
      = max (current_height self) (int ((N + W - 1) div W))"
    by (simp add: write_data_final ceil_div [OF pos W])
  have frame': "cell_at (buffer_Screen (snd (write_data cw self data (int W) None))) y x
      = cell_at (buffer_Screen self) y x" if "W \<le> x" for y x
    using frame that by (simp add: write_data_final)
  from pos_eq cell rows count height frame' show ?thesis by blast
qed

theorem write_data_wrap_witness:
  "plain_chars get_cwidth_model (explode_tokens [(Token_root, ustr ''abcde'')]) \<and>
   fst (write_data get_cwidth_model (Screen_init get_cwidth_model 2 None)
          [(Token_root, ustr ''abcde'')] 2 None) 4 = Some (0, 2) \<and>
   snd ` ran (fst (write_data get_cwidth_model (Screen_init get_cwidth_model 2 None)
          [(Token_root, ustr ''abcde'')] 2 None)) = {..<3} \<and>
   current_height (snd (write_data get_cwidth_model (Screen_init get_cwidth_model 2 None)
          [(Token_root, ustr ''abcde'')] 2 None)) = 3"
proof -
  have len: "5 = length (explode_tokens [(Token_root, ustr ''abcde'')])"
    by (simp add: explode_tokens_def ustr_def)
  have W: "0 < (2::nat)" and N: "0 < (5::nat)" by simp_all
  note t = write_data_wrap [OF W plain_chars_example len N,
      of "Screen_init get_cwidth_model 2 None"]
  from t [THEN conjunct1, rule_format, of 4]
  have a: "fst (write_data get_cwidth_model (Screen_init get_cwidth_model 2 None)
          [(Token_root, ustr ''abcde'')] 2 None) 4 = Some (0, 2)"
    by simp
  from t [THEN conjunct2, THEN conjunct1]
  have b: "snd ` ran (fst (write_data get_cwidth_model (Screen_init get_cwidth_model 2 None)
          [(Token_root, ustr ''abcde'')] 2 None)) = {..<3}"
    by simp
  from t [THEN conjunct2, THEN conjunct2, THEN conjunct2, THEN conjunct1]
  have c: "current_height (snd (write_data get_cwidth_model (Screen_init get_cwidth_model 2 None)
          [(Token_root, ustr ''abcde'')] 2 None)) = 3"
    by (simp add: Screen_init_def)
  from plain_chars_example a b c show ?thesis by blast
qed

end
